theory Spec2Isabelle
  imports Main "HOL-Library.Word"
begin

unbundle bit_operations_syntax

section \<open>Data model\<close>

text \<open>
  The driver of \<^verbatim>\<open>src/ds1302.go\<close> works on \<^verbatim>\<open>uint8\<close> values and on three
  \<^verbatim>\<open>machine.Pin\<close> line identifiers (a \<^verbatim>\<open>uint8\<close> pin number each).
\<close>

type_synonym u8 = "8 word"
type_synonym Pin = "8 word"

text \<open>The register address table of lines 30--47.\<close>

definition DS1302_SECONDS_WRITE :: u8 where "DS1302_SECONDS_WRITE = 0x80"
definition DS1302_SECONDS_READ :: u8 where "DS1302_SECONDS_READ = 0x81"
definition DS1302_MINUTES_WRITE :: u8 where "DS1302_MINUTES_WRITE = 0x82"
definition DS1302_MINUTES_READ :: u8 where "DS1302_MINUTES_READ = 0x83"
definition DS1302_HOURS_WRITE :: u8 where "DS1302_HOURS_WRITE = 0x84"
definition DS1302_HOURS_READ :: u8 where "DS1302_HOURS_READ = 0x85"
definition DS1302_DATE_WRITE :: u8 where "DS1302_DATE_WRITE = 0x86"
definition DS1302_DATE_READ :: u8 where "DS1302_DATE_READ = 0x87"
definition DS1302_MONTH_WRITE :: u8 where "DS1302_MONTH_WRITE = 0x88"
definition DS1302_MONTH_READ :: u8 where "DS1302_MONTH_READ = 0x89"
definition DS1302_DAY_WRITE :: u8 where "DS1302_DAY_WRITE = 0x8A"
definition DS1302_DAY_READ :: u8 where "DS1302_DAY_READ = 0x8B"
definition DS1302_YEAR_WRITE :: u8 where "DS1302_YEAR_WRITE = 0x8C"
definition DS1302_YEAR_READ :: u8 where "DS1302_YEAR_READ = 0x8D"
definition DS1302_WP_WRITE :: u8 where "DS1302_WP_WRITE = 0x8E"
definition DS1302_WP_READ :: u8 where "DS1302_WP_READ = 0x8F"

text \<open>The struct of lines 59--63 and its constructor.\<close>

record DS1302 =
  clk :: Pin
  dat :: Pin
  rst :: Pin

definition NewDS1302 :: "Pin \<Rightarrow> Pin \<Rightarrow> Pin \<Rightarrow> DS1302" where
  "NewDS1302 c d r = \<lparr>clk = c, dat = d, rst = r\<rparr>"

section \<open>Calendar codec\<close>

text \<open>
  \<^verbatim>\<open>bcdToDec\<close> (line 138) and \<^verbatim>\<open>decToBcd\<close> (line 143), on \<^verbatim>\<open>uint8\<close>: every
  operation wraps modulo 256, as the word operations do.
\<close>

definition bcdToDec :: "u8 \<Rightarrow> u8" where
  "bcdToDec bcd = (drop_bit 4 bcd * 10) + (bcd AND 0x0F)"

definition decToBcd :: "u8 \<Rightarrow> u8" where
  "decToBcd dec = push_bit 4 (dec div 10) + (dec mod 10)"

section \<open>Pins, events and the outside world\<close>

text \<open>
  The driver acts on the world only through the pin operations \<^verbatim>\<open>Configure\<close>,
  \<^verbatim>\<open>High\<close>, \<^verbatim>\<open>Low\<close>, \<^verbatim>\<open>Get\<close> and through \<^verbatim>\<open>time.Sleep\<close>. The state threaded
  through the model is the trace of these operations, oldest first. What \<^verbatim>\<open>Get\<close>
  returns is decided by the hardware: an environment maps the trace so far and the pin to
  the level read, which covers every deterministic device on the wires.
\<close>

datatype PinMode = PinOutput | PinInput

datatype event =
    Configure Pin PinMode
  | High Pin
  | Low Pin
  | Get Pin bool
  | Sleep int

type_synonym trace = "event list"
type_synonym env = "trace \<Rightarrow> Pin \<Rightarrow> bool"

text \<open>\<^verbatim>\<open>time.Microsecond\<close>, a \<^verbatim>\<open>time.Duration\<close> in nanoseconds.\<close>

definition Microsecond :: int where
  "Microsecond = 1000"

definition pin_Configure :: "Pin \<Rightarrow> PinMode \<Rightarrow> trace \<Rightarrow> trace" where
  "pin_Configure p m tr = tr @ [Configure p m]"

definition pin_High :: "Pin \<Rightarrow> trace \<Rightarrow> trace" where
  "pin_High p tr = tr @ [High p]"

definition pin_Low :: "Pin \<Rightarrow> trace \<Rightarrow> trace" where
  "pin_Low p tr = tr @ [Low p]"

definition pin_Get :: "env \<Rightarrow> Pin \<Rightarrow> trace \<Rightarrow> bool \<times> trace" where
  "pin_Get ev p tr = (let b = ev tr p in (b, tr @ [Get p b]))"

definition time_Sleep :: "int \<Rightarrow> trace \<Rightarrow> trace" where
  "time_Sleep n tr = tr @ [Sleep n]"

section \<open>Driver\<close>

text \<open>\<^verbatim>\<open>Init\<close>, lines 75--83.\<close>

definition Init :: "DS1302 \<Rightarrow> trace \<Rightarrow> trace" where
  "Init d tr0 =
     (let tr1 = pin_Configure (clk d) PinOutput tr0;
          tr2 = pin_Configure (dat d) PinOutput tr1;
          tr3 = pin_Configure (rst d) PinOutput tr2;
          tr4 = pin_Low (clk d) tr3;
          tr5 = pin_Low (rst d) tr4;
          tr6 = pin_Low (dat d) tr5
      in tr6)"

text \<open>
  \<^verbatim>\<open>writeByte\<close>, lines 86--100. The loop \<^verbatim>\<open>for i := 0; i < 8; i++\<close> is the
  recursion on \<open>i\<close>; \<^verbatim>\<open>1<<i\<close> is a \<^verbatim>\<open>uint8\<close> shift.
\<close>

function writeByte_loop :: "DS1302 \<Rightarrow> u8 \<Rightarrow> nat \<Rightarrow> trace \<Rightarrow> trace" where
  "writeByte_loop d data i tr =
     (if i < 8 then
        (let tr1 = (if data AND push_bit i 1 \<noteq> 0 then pin_High (dat d) tr
                    else pin_Low (dat d) tr);
             tr2 = pin_High (clk d) tr1;
             tr3 = time_Sleep Microsecond tr2;
             tr4 = pin_Low (clk d) tr3;
             tr5 = time_Sleep Microsecond tr4
         in writeByte_loop d data (i + 1) tr5)
      else tr)"
  by pat_completeness auto
termination
  by (relation "measure (\<lambda>(d, data, i, tr). 8 - i)") auto

declare writeByte_loop.simps [simp del]

definition writeByte :: "DS1302 \<Rightarrow> u8 \<Rightarrow> trace \<Rightarrow> trace" where
  "writeByte d data tr = writeByte_loop d data 0 (pin_Configure (dat d) PinOutput tr)"

text \<open>\<^verbatim>\<open>readByte\<close>, lines 103--117. The loop state is \<^verbatim>\<open>data\<close> and the trace.\<close>

function readByte_loop :: "env \<Rightarrow> DS1302 \<Rightarrow> nat \<Rightarrow> u8 \<Rightarrow> trace \<Rightarrow> u8 \<times> trace" where
  "readByte_loop ev d i data tr =
     (if i < 8 then
        (let tr1 = pin_High (clk d) tr;
             tr2 = time_Sleep Microsecond tr1;
             (b, tr3) = pin_Get ev (dat d) tr2;
             data' = (if b then data OR push_bit i 1 else data);
             tr4 = pin_Low (clk d) tr3;
             tr5 = time_Sleep Microsecond tr4
         in readByte_loop ev d (i + 1) data' tr5)
      else (data, tr))"
  by pat_completeness auto
termination
  by (relation "measure (\<lambda>(ev, d, i, data, tr). 8 - i)") auto

declare readByte_loop.simps [simp del]

definition readByte :: "env \<Rightarrow> DS1302 \<Rightarrow> trace \<Rightarrow> u8 \<times> trace" where
  "readByte ev d tr = readByte_loop ev d 0 0 (pin_Configure (dat d) PinInput tr)"

text \<open>\<^verbatim>\<open>writeRegister\<close>, lines 120--125, and \<^verbatim>\<open>readRegister\<close>, lines 128--134.\<close>

definition writeRegister :: "DS1302 \<Rightarrow> u8 \<Rightarrow> u8 \<Rightarrow> trace \<Rightarrow> trace" where
  "writeRegister d reg v tr0 =
     (let tr1 = pin_High (rst d) tr0;
          tr2 = writeByte d reg tr1;
          tr3 = writeByte d v tr2;
          tr4 = pin_Low (rst d) tr3
      in tr4)"

definition readRegister :: "env \<Rightarrow> DS1302 \<Rightarrow> u8 \<Rightarrow> trace \<Rightarrow> u8 \<times> trace" where
  "readRegister ev d reg tr0 =
     (let tr1 = pin_High (rst d) tr0;
          tr2 = writeByte d reg tr1;
          (v, tr3) = readByte ev d tr2;
          tr4 = pin_Low (rst d) tr3
      in (v, tr4))"

section \<open>Timestamps\<close>

text \<open>
  \<^verbatim>\<open>time.Time\<close> and \<^verbatim>\<open>time.Date\<close> belong to the Go standard library, which the
  driver calls but which is not part of the repository. A \<^verbatim>\<open>time.Time\<close> is modelled
  by what its accessors \<^verbatim>\<open>Year()\<close>, \<^verbatim>\<open>Month()\<close>, \<^verbatim>\<open>Day()\<close>, \<^verbatim>\<open>Hour()\<close>,
  \<^verbatim>\<open>Minute()\<close>, \<^verbatim>\<open>Second()\<close>, \<^verbatim>\<open>Nanosecond()\<close> and \<^verbatim>\<open>Location()\<close> return.
  Every value of the Go type denotes a date of the proleptic Gregorian calendar and a time
  of day; \<open>valid_Time\<close> is that invariant.
\<close>

datatype Location = UTC | Local | FixedZone string int

record Time =
  Year :: int
  Month :: int
  Day :: int
  Hour :: int
  Minute :: int
  Second :: int
  Nanosecond :: int
  Loc :: Location

definition isLeap :: "int \<Rightarrow> bool" where
  "isLeap y = (y mod 4 = 0 \<and> (y mod 100 \<noteq> 0 \<or> y mod 400 = 0))"

definition daysIn :: "int \<Rightarrow> int \<Rightarrow> int" where
  "daysIn m y =
     (if m = 2 then (if isLeap y then 29 else 28)
      else if m = 4 \<or> m = 6 \<or> m = 9 \<or> m = 11 then 30
      else 31)"

definition valid_Time :: "Time \<Rightarrow> bool" where
  "valid_Time t =
     (1 \<le> Month t \<and> Month t \<le> 12 \<and>
      1 \<le> Day t \<and> Day t \<le> daysIn (Month t) (Year t) \<and>
      0 \<le> Hour t \<and> Hour t \<le> 23 \<and>
      0 \<le> Minute t \<and> Minute t \<le> 59 \<and>
      0 \<le> Second t \<and> Second t \<le> 59 \<and>
      0 \<le> Nanosecond t \<and> Nanosecond t < 1000000000)"

text \<open>The zero value \<^verbatim>\<open>time.Time{}\<close>: January 1, year 1, 00:00:00 UTC.\<close>

definition Time_zero :: Time where
  "Time_zero = \<lparr>Year = 1, Month = 1, Day = 1, Hour = 0, Minute = 0, Second = 0,
                 Nanosecond = 0, Loc = UTC\<rparr>"

text \<open>
  \<^verbatim>\<open>time.Date\<close> accepts values outside their usual ranges and normalises them
  (``October 32 converts to November 1''). The library's helper \<^verbatim>\<open>norm(hi, lo, base)\<close>
  carries the overflow of \<open>lo\<close> into \<open>hi\<close>; it is used for the month (into the year) and
  for nanoseconds, seconds, minutes and hours (into the day).
\<close>

definition norm :: "int \<Rightarrow> int \<Rightarrow> int \<Rightarrow> int \<times> int" where
  "norm hi lo base =
     (let (hi1, lo1) = (if lo < 0 then (let n = (- lo - 1) div base + 1
                                         in (hi - n, lo + n * base))
                        else (hi, lo));
          (hi2, lo2) = (if lo1 \<ge> base then (let n = lo1 div base
                                               in (hi1 + n, lo1 - n * base))
                        else (hi1, lo1))
      in (hi2, lo2))"

text \<open>
  The library then counts days from the first of the normalised month, so that a day
  below 1 or beyond the end of the month lands in a neighbouring month. \<open>normDay\<close> is
  that count, one month at a time.
\<close>

function normDay :: "int \<Rightarrow> int \<Rightarrow> int \<Rightarrow> int \<times> int \<times> int" where
  "normDay y m d =
     (if d < 1 then
        (let (y', m') = (if m \<le> 1 then (y - 1, 12) else (y, m - 1))
         in normDay y' m' (d + daysIn m' y'))
      else if d > daysIn m y then
        (let (y', m') = (if m \<ge> 12 then (y + 1, 1) else (y, m + 1))
         in normDay y' m' (d - daysIn m y))
      else (y, m, d))"
  by pat_completeness auto
termination
  by (relation "measure (\<lambda>(y, m, d). if d < 1 then nat (- d) + 32 else nat d)")
     (auto simp: daysIn_def split: if_splits)

declare normDay.simps [simp del]

definition Date :: "int \<Rightarrow> int \<Rightarrow> int \<Rightarrow> int \<Rightarrow> int \<Rightarrow> int \<Rightarrow> int \<Rightarrow> Location \<Rightarrow> Time" where
  "Date year month day hour mi sec nsec loc =
     (let (year1, m) = norm year (month - 1) 12;
          month1 = m + 1;
          (sec1, nsec1) = norm sec nsec 1000000000;
          (mi1, sec2) = norm mi sec1 60;
          (hour1, mi2) = norm hour mi1 60;
          (day1, hour2) = norm day hour1 24;
          (year2, month2, day2) = normDay year1 month1 day1
      in \<lparr>Year = year2, Month = month2, Day = day2, Hour = hour2, Minute = mi2,
           Second = sec2, Nanosecond = nsec1, Loc = loc\<rparr>)"

section \<open>Driver facade\<close>

text \<open>
  \<^verbatim>\<open>SetTime\<close>, lines 147--161. \<^verbatim>\<open>uint8(x)\<close> of an \<^verbatim>\<open>int\<close> keeps the low eight
  bits, which is \<open>word_of_int\<close>.
\<close>

definition SetTime :: "DS1302 \<Rightarrow> Time \<Rightarrow> trace \<Rightarrow> trace" where
  "SetTime d t tr0 =
     (let tr1 = writeRegister d DS1302_WP_WRITE 0x00 tr0;
          tr2 = writeRegister d DS1302_SECONDS_WRITE (decToBcd (word_of_int (Second t))) tr1;
          tr3 = writeRegister d DS1302_MINUTES_WRITE (decToBcd (word_of_int (Minute t))) tr2;
          tr4 = writeRegister d DS1302_HOURS_WRITE (decToBcd (word_of_int (Hour t))) tr3;
          tr5 = writeRegister d DS1302_DATE_WRITE (decToBcd (word_of_int (Day t))) tr4;
          tr6 = writeRegister d DS1302_MONTH_WRITE (decToBcd (word_of_int (Month t))) tr5;
          tr7 = writeRegister d DS1302_YEAR_WRITE (decToBcd (word_of_int (Year t - 2000))) tr6;
          tr8 = writeRegister d DS1302_WP_WRITE 0x80 tr7
      in tr8)"

text \<open>
  \<^verbatim>\<open>ReadTime\<close>, lines 164--174, in its two parts: lines 165--170 read and decode the six
  local variables, lines 172--173 hand them to \<^verbatim>\<open>time.Date\<close>.
\<close>

record decoded =
  seconds :: u8
  minutes :: u8
  hours :: u8
  day :: u8
  month :: u8
  year :: int

definition ReadTime_decode :: "env \<Rightarrow> DS1302 \<Rightarrow> trace \<Rightarrow> decoded \<times> trace" where
  "ReadTime_decode ev d tr0 =
     (let (r1, tr1) = readRegister ev d DS1302_SECONDS_READ tr0;
          (r2, tr2) = readRegister ev d DS1302_MINUTES_READ tr1;
          (r3, tr3) = readRegister ev d DS1302_HOURS_READ tr2;
          (r4, tr4) = readRegister ev d DS1302_DATE_READ tr3;
          (r5, tr5) = readRegister ev d DS1302_MONTH_READ tr4;
          (r6, tr6) = readRegister ev d DS1302_YEAR_READ tr5
      in (\<lparr>seconds = bcdToDec (r1 AND 0x7F), minutes = bcdToDec r2, hours = bcdToDec r3,
            day = bcdToDec r4, month = bcdToDec r5, year = 2000 + uint (bcdToDec r6)\<rparr>, tr6))"

definition Date_of :: "decoded \<Rightarrow> Time" where
  "Date_of f = Date (year f) (uint (month f)) (uint (day f)) (uint (hours f))
                    (uint (minutes f)) (uint (seconds f)) 0 UTC"

text \<open>The decoded values that are a calendar date and a time of day.\<close>

definition in_calendar :: "decoded \<Rightarrow> bool" where
  "in_calendar f =
     (1 \<le> uint (month f) \<and> uint (month f) \<le> 12 \<and>
      1 \<le> uint (day f) \<and> uint (day f) \<le> daysIn (uint (month f)) (year f) \<and>
      uint (hours f) \<le> 23 \<and> uint (minutes f) \<le> 59 \<and> uint (seconds f) \<le> 59)"

definition ReadTime :: "env \<Rightarrow> DS1302 \<Rightarrow> trace \<Rightarrow> Time \<times> trace" where
  "ReadTime ev d tr0 = (let (f, tr1) = ReadTime_decode ev d tr0 in (Date_of f, tr1))"

section \<open>The substitute backend\<close>

text \<open>
  The build without hardware (the \<^verbatim>\<open>!tinygo\<close> file): \<^verbatim>\<open>Init\<close> and \<^verbatim>\<open>SetTime\<close> have
  empty bodies, \<^verbatim>\<open>ReadTime\<close> returns \<^verbatim>\<open>time.Time{}\<close>. The same trace is threaded
  through, so that ``no pin operation'' can be stated.
\<close>

definition stub_Init :: "trace \<Rightarrow> trace" where
  "stub_Init tr = tr"

definition stub_SetTime :: "Time \<Rightarrow> trace \<Rightarrow> trace" where
  "stub_SetTime t tr = tr"

definition stub_ReadTime :: "trace \<Rightarrow> Time \<times> trace" where
  "stub_ReadTime tr = (Time_zero, tr)"

datatype call = CallInit | CallSetTime Time | CallReadTime

text \<open>A caller's sequence of calls; the result collects what each \<^verbatim>\<open>ReadTime\<close> returned.\<close>

fun stub_run :: "call list \<Rightarrow> trace \<Rightarrow> Time list \<times> trace" where
  "stub_run [] tr = ([], tr)"
| "stub_run (CallInit # cs) tr = stub_run cs (stub_Init tr)"
| "stub_run (CallSetTime t # cs) tr = stub_run cs (stub_SetTime t tr)"
| "stub_run (CallReadTime # cs) tr =
     (let (t, tr1) = stub_ReadTime tr; (ts, tr2) = stub_run cs tr1 in (t # ts, tr2))"

section \<open>What a trace looks like\<close>

text \<open>
  The event lists that the prose description of the transport and of the register protocol
  prescribes, to compare the driver's traces with: one bit cell of a byte written, one bit
  cell of a byte read, and a whole byte either way.
\<close>

definition write_bit_events :: "DS1302 \<Rightarrow> u8 \<Rightarrow> nat \<Rightarrow> event list" where
  "write_bit_events d data i =
     [if bit data i then High (dat d) else Low (dat d),
      High (clk d), Sleep Microsecond, Low (clk d), Sleep Microsecond]"

definition writeByte_events :: "DS1302 \<Rightarrow> u8 \<Rightarrow> event list" where
  "writeByte_events d data =
     Configure (dat d) PinOutput # concat (map (write_bit_events d data) [0..<8])"

definition read_bit_events :: "DS1302 \<Rightarrow> bool \<Rightarrow> event list" where
  "read_bit_events d b =
     [High (clk d), Sleep Microsecond, Get (dat d) b, Low (clk d), Sleep Microsecond]"

definition readByte_events :: "DS1302 \<Rightarrow> bool list \<Rightarrow> event list" where
  "readByte_events d bs = Configure (dat d) PinInput # concat (map (read_bit_events d) bs)"

text \<open>
  The levels sampled by \<open>n\<close> successive read cells that start after the trace \<open>tr\<close>: each
  sample is taken after the clock was raised and the delay has passed.
\<close>

fun sample_bits :: "env \<Rightarrow> DS1302 \<Rightarrow> nat \<Rightarrow> trace \<Rightarrow> bool list" where
  "sample_bits ev d 0 tr = []"
| "sample_bits ev d (Suc n) tr =
     (let b = ev (tr @ [High (clk d), Sleep Microsecond]) (dat d)
      in b # sample_bits ev d n (tr @ read_bit_events d b))"

text \<open>The byte whose bit \<open>i\<close> is the \<open>i\<close>-th element of the list (least significant first).\<close>

fun byte_of_bits :: "bool list \<Rightarrow> u8" where
  "byte_of_bits [] = 0"
| "byte_of_bits (b # bs) = (if b then 1 else 0) OR push_bit 1 (byte_of_bits bs)"

definition writeRegister_events :: "DS1302 \<Rightarrow> u8 \<Rightarrow> u8 \<Rightarrow> event list" where
  "writeRegister_events d reg v =
     High (rst d) # writeByte_events d reg @ writeByte_events d v @ [Low (rst d)]"

definition readRegister_events :: "DS1302 \<Rightarrow> u8 \<Rightarrow> bool list \<Rightarrow> event list" where
  "readRegister_events d reg bs =
     High (rst d) # writeByte_events d reg @ readByte_events d bs @ [Low (rst d)]"

text \<open>The pin an event acts on, and the level last driven on a pin.\<close>

fun pin_of :: "event \<Rightarrow> Pin option" where
  "pin_of (Configure p m) = Some p"
| "pin_of (High p) = Some p"
| "pin_of (Low p) = Some p"
| "pin_of (Get p b) = Some p"
| "pin_of (Sleep n) = None"

fun drive :: "Pin \<Rightarrow> bool option \<Rightarrow> event \<Rightarrow> bool option" where
  "drive p l (High q) = (if q = p then Some True else l)"
| "drive p l (Low q) = (if q = p then Some False else l)"
| "drive p l e = l"

definition level :: "Pin \<Rightarrow> trace \<Rightarrow> bool option" where
  "level p tr = foldl (drive p) None tr"

text \<open>
  A transaction is one chip-select pulse: chip-select is raised by the first event, lowered
  by the last, and no event in between acts on the chip-select pin.
\<close>

definition one_select_pulse :: "DS1302 \<Rightarrow> event list \<Rightarrow> bool" where
  "one_select_pulse d evs =
     (\<exists>mid. evs = High (rst d) # mid @ [Low (rst d)] \<and>
            list_all (\<lambda>e. pin_of e \<noteq> Some (rst d)) mid)"

section \<open>A simulated chip\<close>

text \<open>
  The device of the end-to-end scenario: it stores each byte written at a write address
  and returns it on the read address one above. It follows the three wires: raising
  chip-select starts a transaction; while selected, each raising of the clock shifts one
  bit in, least significant first, the first eight being the command byte; when bit 0 of
  the command is clear the next eight are the byte to store, otherwise each lowering of the
  clock from the eighth on presents the next bit of the stored byte on the data line.
  \<open>log\<close> lists the completed accesses as (command byte, data byte).
\<close>

record chip =
  regs :: "u8 \<Rightarrow> u8"
  ce :: bool
  nbits :: nat
  cmd :: u8
  shift :: u8
  io :: bool
  out :: bool
  log :: "(u8 \<times> u8) list"

definition clock_rise :: "chip \<Rightarrow> chip" where
  "clock_rise c =
     (if nbits c < 8 then
        c\<lparr>cmd := (if io c then cmd c OR push_bit (nbits c) 1 else cmd c),
          nbits := nbits c + 1\<rparr>
      else if nbits c < 16 then
        (if bit (cmd c) 0 then
           (if nbits c = 15
            then c\<lparr>nbits := 16, log := log c @ [(cmd c, regs c (cmd c - 1))]\<rparr>
            else c\<lparr>nbits := nbits c + 1\<rparr>)
         else
           (let s = (if io c then shift c OR push_bit (nbits c - 8) 1 else shift c)
            in if nbits c = 15
               then c\<lparr>shift := s, nbits := 16, regs := (regs c)(cmd c := s),
                      log := log c @ [(cmd c, s)]\<rparr>
               else c\<lparr>shift := s, nbits := nbits c + 1\<rparr>))
      else c)"

definition clock_fall :: "chip \<Rightarrow> chip" where
  "clock_fall c =
     (if 8 \<le> nbits c \<and> bit (cmd c) 0
      then c\<lparr>out := bit (regs c (cmd c - 1)) (nbits c - 8)\<rparr>
      else c)"

fun chip_step :: "DS1302 \<Rightarrow> chip \<Rightarrow> event \<Rightarrow> chip" where
  "chip_step d c (High p) =
     (if p = rst d then c\<lparr>ce := True, nbits := 0, cmd := 0, shift := 0\<rparr>
      else if p = clk d then (if ce c then clock_rise c else c)
      else if p = dat d then c\<lparr>io := True\<rparr>
      else c)"
| "chip_step d c (Low p) =
     (if p = rst d then c\<lparr>ce := False\<rparr>
      else if p = clk d then (if ce c then clock_fall c else c)
      else if p = dat d then c\<lparr>io := False\<rparr>
      else c)"
| "chip_step d c e = c"

definition chip_run :: "DS1302 \<Rightarrow> chip \<Rightarrow> trace \<Rightarrow> chip" where
  "chip_run d c0 tr = foldl (chip_step d) c0 tr"

text \<open>The chip as an environment: what the driver reads on the data line.\<close>

definition chip_env :: "DS1302 \<Rightarrow> chip \<Rightarrow> env" where
  "chip_env d c0 tr p = (p = dat d \<and> out (chip_run d c0 tr))"

text \<open>The wiring of the repository's example program: CLK 18, DAT 19, RST 5.\<close>

definition example_rtc :: DS1302 where
  "example_rtc = NewDS1302 18 19 5"

definition wired :: "DS1302 \<Rightarrow> bool" where
  "wired d = (clk d \<noteq> dat d \<and> clk d \<noteq> rst d \<and> dat d \<noteq> rst d)"

text \<open>
  Concrete inputs: the timestamp the example program sets, a chip whose registers are all
  zero, a chip stopped at 2024-08-05 21:00:59 (seconds byte \<open>0xD9\<close>, clock-halt bit set),
  and a chip whose registers hold 2024-08-05 with the out-of-range time 25:00:00.
\<close>

definition initialTime :: Time where
  "initialTime = Date 2024 8 5 21 0 0 0 UTC"

definition chip_blank :: chip where
  "chip_blank = \<lparr>regs = (\<lambda>a. 0), ce = False, nbits = 0, cmd = 0, shift = 0, io = False,
                  out = False, log = []\<rparr>"

definition chip_halted :: chip where
  "chip_halted = chip_blank\<lparr>regs := (\<lambda>a. 0)
     (DS1302_SECONDS_WRITE := 0xD9, DS1302_HOURS_WRITE := 0x21, DS1302_DATE_WRITE := 0x05,
      DS1302_MONTH_WRITE := 0x08, DS1302_YEAR_WRITE := 0x24)\<rparr>"

definition chip_hour25 :: chip where
  "chip_hour25 = chip_blank\<lparr>regs := (\<lambda>a. 0)
     (DS1302_HOURS_WRITE := 0x25, DS1302_DATE_WRITE := 0x05, DS1302_MONTH_WRITE := 0x08,
      DS1302_YEAR_WRITE := 0x24)\<rparr>"

text \<open>A chip whose registers are zero but for the year byte \<open>0x24\<close>.\<close>

definition chip_year24 :: chip where
  "chip_year24 = chip_blank\<lparr>regs := (\<lambda>a. 0)(DS1302_YEAR_WRITE := 0x24)\<rparr>"

section \<open>Codec properties\<close>

lemmas reg_defs =
  DS1302_SECONDS_WRITE_def DS1302_SECONDS_READ_def DS1302_MINUTES_WRITE_def
  DS1302_MINUTES_READ_def DS1302_HOURS_WRITE_def DS1302_HOURS_READ_def
  DS1302_DATE_WRITE_def DS1302_DATE_READ_def DS1302_MONTH_WRITE_def
  DS1302_MONTH_READ_def DS1302_DAY_WRITE_def DS1302_DAY_READ_def
  DS1302_YEAR_WRITE_def DS1302_YEAR_READ_def DS1302_WP_WRITE_def DS1302_WP_READ_def

lemma unat_decToBcd:
  assumes "unat n \<le> 99"
  shows "unat (decToBcd n) = 16 * (unat n div 10) + unat n mod 10"
proof -
  have a: "unat (n div 10) = unat n div 10" by (simp add: unat_div)
  have b: "unat (n mod 10) = unat n mod 10" by (simp add: unat_mod)
  have c: "unat (push_bit 4 (n div 10)) = 16 * (unat n div 10)"
    using assms by (simp add: push_bit_eq_mult unat_word_ariths a)
  show ?thesis
    unfolding decToBcd_def using assms a b c
    by (simp add: unat_word_ariths)
qed

lemma unat_bcdToDec:
  "unat (bcdToDec b) = 10 * (unat b div 16) + unat b mod 16"
proof -
  have a: "unat (drop_bit 4 b) = unat b div 16"
    by (simp add: drop_bit_eq_div unat_div)
  have b: "unat (b AND 0x0F) = unat b mod 16"
  proof -
    have "b AND 0x0F = take_bit 4 b"
      using take_bit_eq_mask[of 4 b] by (simp add: mask_eq_exp_minus_1)
    then show ?thesis by (simp add: take_bit_eq_mod unat_mod)
  qed
  have "unat b < 256" using unsigned_less[of b, where ?'a=nat] by simp
  then have "10 * (unat b div 16) + unat b mod 16 < 256" by arith
  then show ?thesis unfolding bcdToDec_def using a b by (simp add: unat_word_ariths)
qed

lemma bcdToDec_decToBcd:
  assumes "unat n \<le> 99"
  shows "bcdToDec (decToBcd n) = n"
proof -
  have "unat (bcdToDec (decToBcd n)) = unat n"
    using assms by (simp add: unat_bcdToDec unat_decToBcd)
  then show ?thesis by (simp add: word_unat_eq_iff)
qed

lemma decToBcd_or: "decToBcd v = push_bit 4 (v div 10) OR (v mod 10)"
proof -
  have "unat (v mod 10) < 2 ^ 4" by (simp add: unat_mod)
  then have "v mod 10 < 2 ^ 4" by (simp add: word_less_nat_alt)
  then have t: "take_bit 4 (v mod 10) = v mod 10"
    by (simp add: less_mask_eq take_bit_eq_mask)
  have nb: "\<not> bit (v mod 10) n" if "4 \<le> n" for n
  proof
    assume "bit (v mod 10) n"
    then have "bit (take_bit 4 (v mod 10)) n" by (simp only: t)
    then show False using that by (simp add: bit_take_bit_iff)
  qed
  show ?thesis
    unfolding decToBcd_def
  proof (rule disjunctive_add)
    fix n show "\<not> bit (push_bit 4 (v div 10)) n \<or> \<not> bit (v mod 10) n"
      using nb[of n] by (cases "4 \<le> n") (simp_all add: bit_push_bit_iff)
  qed
qed

text \<open>
  C4. For every \<open>n\<close> from 0 to 99, decoding the BCD encoding of \<open>n\<close> gives \<open>n\<close> back,
  where \<open>bcdToDec b\<close> is \<open>(b >> 4) * 10 + (b & 0x0F)\<close> and \<open>decToBcd v\<close> is
  \<open>((v / 10) << 4) | (v % 10)\<close>; the source writes the latter with \<open>+\<close>, which is the
  same byte for every \<open>v\<close>.
\<close>

theorem bcd_round_trip:
  "unat n \<le> 99 \<Longrightarrow>
     bcdToDec (decToBcd n) = n \<and>
     bcdToDec b = drop_bit 4 b * 10 + (b AND 0x0F) \<and>
     decToBcd v = (push_bit 4 (v div 10) OR (v mod 10))"
  using bcdToDec_decToBcd[of n] decToBcd_or[of v] by (simp only: bcdToDec_def simp_thms)

theorem bcd_round_trip_witness:
  "unat (45 :: u8) \<le> 99 \<and> bcdToDec (decToBcd 45) = 45 \<and> decToBcd 45 = 0x45 \<and>
   bcdToDec 0x99 = drop_bit 4 0x99 * 10 + (0x99 AND 0x0F) \<and>
   decToBcd 99 = (push_bit 4 (99 div 10) OR (99 mod 10))"
  using bcd_round_trip[of 45 "0x99" 99] by (simp add: decToBcd_def)

section \<open>The bit-serial transport\<close>

lemma and_push_bit_1_iff: "(data AND push_bit i 1 \<noteq> 0) = bit (data::u8) i"
  by (simp only: bit_iff_and_push_bit_not_eq_0)

lemma writeByte_loop_step:
  assumes "i < 8"
  shows "writeByte_loop d data i tr =
         writeByte_loop d data (i + 1) (tr @ write_bit_events d data i)"
proof -
  have "(if data AND push_bit i 1 \<noteq> 0 then pin_High (dat d) tr else pin_Low (dat d) tr)
        = tr @ [if bit data i then High (dat d) else Low (dat d)]"
    by (simp only: and_push_bit_1_iff pin_High_def pin_Low_def if_distrib[of "\<lambda>x. tr @ [x]"])
  then show ?thesis
    using assms
    by (subst writeByte_loop.simps)
       (simp only: Let_def if_True write_bit_events_def pin_High_def pin_Low_def
          time_Sleep_def append_assoc append.simps)
qed

lemma writeByte_loop_trace:
  "writeByte_loop d data i tr = tr @ concat (map (write_bit_events d data) [i..<8])"
proof (induction "8 - i" arbitrary: i tr)
  case 0
  then show ?case by (subst writeByte_loop.simps) simp
next
  case (Suc n)
  then have lt: "i < 8" and n: "n = 8 - (i + 1)" by simp_all
  have u: "[i..<8] = i # [i + 1..<8]" using lt by (simp add: upt_conv_Cons)
  show ?case
    by (simp only: writeByte_loop_step[OF lt] Suc.hyps(1)[OF n] u list.map concat.simps
          append_assoc)
qed

lemma writeByte_trace: "writeByte d data tr = tr @ writeByte_events d data"
  by (simp add: writeByte_def writeByte_loop_trace writeByte_events_def pin_Configure_def)

lemma readByte_loop_step:
  assumes "i < 8"
  shows "readByte_loop ev d i data tr =
     (let b = ev (tr @ [High (clk d), Sleep Microsecond]) (dat d)
      in readByte_loop ev d (i + 1) (if b then data OR push_bit i 1 else data)
           (tr @ read_bit_events d b))"
  using assms
  by (subst readByte_loop.simps)
     (simp only: Let_def if_True read_bit_events_def pin_High_def pin_Low_def pin_Get_def
          time_Sleep_def append_assoc append.simps prod.case)

lemma readByte_loop_trace:
  "i \<le> 8 \<Longrightarrow> readByte_loop ev d i data tr =
     (data OR push_bit i (byte_of_bits (sample_bits ev d (8 - i) tr)),
      tr @ concat (map (read_bit_events d) (sample_bits ev d (8 - i) tr)))"
proof (induction "8 - i" arbitrary: i data tr)
  case 0
  then have "i = 8" by simp
  then show ?case by (subst readByte_loop.simps) simp
next
  case (Suc n)
  then have lt: "i < 8" and n: "n = 8 - (i + 1)" and le: "i + 1 \<le> 8" by simp_all
  have s: "8 - i = Suc (8 - (i + 1))" using lt by simp
  have pb: "push_bit i (byte_of_bits (b # bs)) =
            (if b then push_bit i 1 else 0) OR push_bit (i + 1) (byte_of_bits bs)" for b bs
    by (simp add: push_bit_or del: push_bit_of_1)
  show ?case
    unfolding readByte_loop_step[OF lt] s sample_bits.simps Let_def Suc.hyps(1)[OF n le] pb
    by (simp add: ac_simps)
qed

lemma readByte_trace:
  "readByte ev d tr =
     (byte_of_bits (sample_bits ev d 8 (tr @ [Configure (dat d) PinInput])),
      tr @ readByte_events d (sample_bits ev d 8 (tr @ [Configure (dat d) PinInput])))"
  by (simp add: readByte_def readByte_loop_trace[of 0] pin_Configure_def readByte_events_def)

lemma length_sample_bits [simp]: "length (sample_bits ev d n tr) = n"
  by (induction n arbitrary: tr) (simp_all add: Let_def)

lemma bit_byte_of_bits:
  "bit (byte_of_bits bs) n \<longleftrightarrow> n < 8 \<and> n < length bs \<and> bs ! n"
proof (induction bs arbitrary: n)
  case Nil
  then show ?case by simp
next
  case (Cons b bs)
  have "bit (byte_of_bits (b # bs)) n \<longleftrightarrow>
        (b \<and> n = 0) \<or> (1 \<le> n \<and> n < 8 \<and> bit (byte_of_bits bs) (n - 1))"
    by (simp only: byte_of_bits.simps bit_or_iff bit_push_bit_iff)
       (auto simp: bit_1_iff dest: bit_imp_le_length)
  then show ?case
    by (cases n) (auto simp: Cons.IH)
qed

text \<open>
  C7. \<open>writeByte\<close> configures the data line as an output and then, for the bit indices 0
  to 7 in this order, drives the data line to the bit's value, raises the clock, sleeps
  one microsecond (1000 ns), lowers the clock and sleeps again. \<open>readByte\<close> configures
  the data line as an input and then, eight times, raises the clock, sleeps, samples the
  data line, lowers the clock and sleeps; each sample is the level the environment shows
  on the data pin at that point of the trace, and bit \<open>n\<close> of the byte returned is the
  \<open>n\<close>-th sample.
\<close>

theorem byte_transfer_traces:
  "writeByte d data tr =
     tr @ Configure (dat d) PinOutput # concat (map (write_bit_events d data) [0, 1, 2, 3, 4, 5, 6, 7]) \<and>
   write_bit_events d data i =
     [if bit data i then High (dat d) else Low (dat d),
      High (clk d), Sleep 1000, Low (clk d), Sleep 1000] \<and>
   snd (readByte ev d tr) =
     tr @ Configure (dat d) PinInput #
       concat (map (read_bit_events d) (sample_bits ev d 8 (tr @ [Configure (dat d) PinInput]))) \<and>
   read_bit_events d b =
     [High (clk d), Sleep 1000, Get (dat d) b, Low (clk d), Sleep 1000] \<and>
   length (sample_bits ev d 8 (tr @ [Configure (dat d) PinInput])) = 8 \<and>
   sample_bits ev d (Suc k) tr' =
     ev (tr' @ [High (clk d), Sleep 1000]) (dat d) #
       sample_bits ev d k
         (tr' @ read_bit_events d (ev (tr' @ [High (clk d), Sleep 1000]) (dat d))) \<and>
   bit (fst (readByte ev d tr)) n =
     (n < 8 \<and> sample_bits ev d 8 (tr @ [Configure (dat d) PinInput]) ! n)"
proof -
  have u: "[0..<8] = [0, 1, 2, 3, 4, 5, 6, 7]" by (simp add: upt_rec)
  show ?thesis
    by (simp add: writeByte_trace writeByte_events_def u readByte_trace readByte_events_def
          write_bit_events_def read_bit_events_def Microsecond_def bit_byte_of_bits Let_def)
qed

section \<open>The register protocol\<close>

lemma writeRegister_trace:
  "writeRegister d reg v tr = tr @ writeRegister_events d reg v"
  by (simp add: writeRegister_def writeRegister_events_def writeByte_trace pin_High_def
        pin_Low_def)

lemma readRegister_trace:
  "readRegister ev d reg tr =
     (byte_of_bits (sample_bits ev d 8
        (tr @ High (rst d) # writeByte_events d reg @ [Configure (dat d) PinInput])),
      tr @ readRegister_events d reg (sample_bits ev d 8
        (tr @ High (rst d) # writeByte_events d reg @ [Configure (dat d) PinInput])))"
  by (simp add: readRegister_def readRegister_events_def writeByte_trace readByte_trace
        pin_High_def pin_Low_def Let_def)

lemma SetTime_trace:
  "SetTime d t tr =
     tr @ writeRegister_events d DS1302_WP_WRITE 0x00
        @ writeRegister_events d DS1302_SECONDS_WRITE (decToBcd (word_of_int (Second t)))
        @ writeRegister_events d DS1302_MINUTES_WRITE (decToBcd (word_of_int (Minute t)))
        @ writeRegister_events d DS1302_HOURS_WRITE (decToBcd (word_of_int (Hour t)))
        @ writeRegister_events d DS1302_DATE_WRITE (decToBcd (word_of_int (Day t)))
        @ writeRegister_events d DS1302_MONTH_WRITE (decToBcd (word_of_int (Month t)))
        @ writeRegister_events d DS1302_YEAR_WRITE (decToBcd (word_of_int (Year t - 2000)))
        @ writeRegister_events d DS1302_WP_WRITE 0x80"
  by (simp add: SetTime_def writeRegister_trace Let_def)

lemma level_append: "level p (tr @ evs) = foldl (drive p) (level p tr) evs"
  by (simp add: level_def)

lemma pin_of_write_bit: "wired d \<Longrightarrow> e \<in> set (write_bit_events d data i) \<Longrightarrow> pin_of e \<noteq> Some (rst d)"
  by (auto simp: write_bit_events_def wired_def split: if_splits)

lemma pin_of_read_bit: "wired d \<Longrightarrow> e \<in> set (read_bit_events d b) \<Longrightarrow> pin_of e \<noteq> Some (rst d)"
  by (auto simp: read_bit_events_def wired_def)

lemma pin_of_writeByte: "wired d \<Longrightarrow> e \<in> set (writeByte_events d data) \<Longrightarrow> pin_of e \<noteq> Some (rst d)"
  by (auto simp: writeByte_events_def dest: pin_of_write_bit) (simp add: wired_def)

lemma pin_of_readByte: "wired d \<Longrightarrow> e \<in> set (readByte_events d bs) \<Longrightarrow> pin_of e \<noteq> Some (rst d)"
  by (auto simp: readByte_events_def dest: pin_of_read_bit) (simp add: wired_def)

lemma pulse_writeRegister: "wired d \<Longrightarrow> one_select_pulse d (writeRegister_events d reg v)"
  unfolding one_select_pulse_def writeRegister_events_def
  by (rule exI[of _ "writeByte_events d reg @ writeByte_events d v"])
     (auto simp: list_all_iff dest: pin_of_writeByte)

lemma pulse_readRegister: "wired d \<Longrightarrow> one_select_pulse d (readRegister_events d reg bs)"
  unfolding one_select_pulse_def readRegister_events_def
  by (rule exI[of _ "writeByte_events d reg @ readByte_events d bs"])
     (auto simp: list_all_iff dest: pin_of_writeByte pin_of_readByte)

lemma drive_other: "pin_of e \<noteq> Some p \<Longrightarrow> drive p l e = l"
  by (cases e) auto

lemma foldl_drive_other: "list_all (\<lambda>e. pin_of e \<noteq> Some p) es \<Longrightarrow> foldl (drive p) l es = l"
  by (induction es arbitrary: l) (simp_all add: drive_other)

lemma selected_inside_pulse:
  assumes "one_select_pulse d evs" and "evs = pre @ e # post" and "pin_of e \<noteq> Some (rst d)"
  shows "level (rst d) (tr @ pre) = Some True"
proof -
  from assms(1) obtain mid where evs: "evs = High (rst d) # mid @ [Low (rst d)]"
    and mid: "list_all (\<lambda>e. pin_of e \<noteq> Some (rst d)) mid"
    by (auto simp: one_select_pulse_def)
  from assms(2,3) evs obtain pre' where pre: "pre = High (rst d) # pre'"
    by (cases pre) auto
  with assms(2) evs have eq: "mid @ [Low (rst d)] = pre' @ e # post" by simp
  have "\<exists>rest. mid = pre' @ rest"
  proof (cases post rule: rev_cases)
    case Nil
    with eq assms(3) show ?thesis by simp
  next
    case (snoc post' x)
    with eq have "mid = pre' @ e # post'" by simp
    then show ?thesis by blast
  qed
  then obtain rest where "mid = pre' @ rest" ..
  with mid have "list_all (\<lambda>e. pin_of e \<noteq> Some (rst d)) pre'" by simp
  then show ?thesis by (simp add: pre level_append foldl_drive_other)
qed


text \<open>
  C2. For every timestamp, \<open>SetTime\<close> appends to the trace exactly eight register
  writes: first \<open>0x00\<close> to address \<open>0x8E\<close>, then the seconds, minutes, hours, date,
  month and year at \<open>0x80\<close>, \<open>0x82\<close>, \<open>0x84\<close>, \<open>0x86\<close>, \<open>0x88\<close>, \<open>0x8C\<close> in
  this order, last \<open>0x80\<close> to address \<open>0x8E\<close>; a register write of \<open>v\<close> to \<open>a\<close> being
  the events of \<open>writeRegister d a v\<close>.
\<close>

theorem SetTime_write_trace:
  "SetTime d t tr =
     tr @ concat (map (\<lambda>(a, v). writeRegister_events d a v)
       [(0x8E, 0x00),
        (0x80, decToBcd (word_of_int (Second t))),
        (0x82, decToBcd (word_of_int (Minute t))),
        (0x84, decToBcd (word_of_int (Hour t))),
        (0x86, decToBcd (word_of_int (Day t))),
        (0x88, decToBcd (word_of_int (Month t))),
        (0x8C, decToBcd (word_of_int (Year t - 2000))),
        (0x8E, 0x80)]) \<and>
   writeRegister d a v tr = tr @ writeRegister_events d a v \<and>
   writeRegister_events d a v =
     High (rst d) # writeByte_events d a @ writeByte_events d v @ [Low (rst d)]"
  by (simp add: SetTime_trace reg_defs writeRegister_trace writeRegister_events_def)

text \<open>
  C8. The events of \<open>writeRegister\<close> and of \<open>readRegister\<close> are, in this order:
  chip-select raised, the register address sent by \<open>writeByte\<close>, exactly one data byte
  sent by \<open>writeByte\<close> or received by \<open>readByte\<close>, chip-select lowered. When
  chip-select, clock and data are three distinct pins, this is one chip-select pulse: no
  event in between acts on the chip-select pin, and at every event of the transfer the
  level last driven on chip-select is high, so that no byte is transferred while
  chip-select is deasserted.
\<close>

theorem register_access_select_pulse:
  "writeRegister d reg v tr =
     tr @ High (rst d) # writeByte_events d reg @ writeByte_events d v @ [Low (rst d)] \<and>
   writeRegister_events d reg v =
     High (rst d) # writeByte_events d reg @ writeByte_events d v @ [Low (rst d)] \<and>
   (wired d \<longrightarrow>
      one_select_pulse d (writeRegister_events d reg v) \<and>
      (writeRegister_events d reg v = pre @ e # post \<and> pin_of e \<noteq> Some (rst d)
         \<longrightarrow> level (rst d) (tr @ pre) = Some True)) \<and>
   (\<exists>bs. length bs = 8 \<and>
      readRegister ev d reg tr =
        (byte_of_bits bs,
         tr @ High (rst d) # writeByte_events d reg @ readByte_events d bs @ [Low (rst d)]) \<and>
      readRegister_events d reg bs =
        High (rst d) # writeByte_events d reg @ readByte_events d bs @ [Low (rst d)] \<and>
      (wired d \<longrightarrow>
         one_select_pulse d (readRegister_events d reg bs) \<and>
         (readRegister_events d reg bs = pre' @ e' # post' \<and> pin_of e' \<noteq> Some (rst d)
            \<longrightarrow> level (rst d) (tr @ pre') = Some True)))"
proof -
  let ?bs = "sample_bits ev d 8
        (tr @ High (rst d) # writeByte_events d reg @ [Configure (dat d) PinInput])"
  have w1: "writeRegister d reg v tr =
     tr @ High (rst d) # writeByte_events d reg @ writeByte_events d v @ [Low (rst d)]"
    by (simp only: writeRegister_trace writeRegister_events_def)
  have w2: "writeRegister_events d reg v =
           High (rst d) # writeByte_events d reg @ writeByte_events d v @ [Low (rst d)]"
    by (simp only: writeRegister_events_def)
  have w3: "wired d \<longrightarrow>
      one_select_pulse d (writeRegister_events d reg v) \<and>
      (writeRegister_events d reg v = pre @ e # post \<and> pin_of e \<noteq> Some (rst d)
         \<longrightarrow> level (rst d) (tr @ pre) = Some True)"
    using selected_inside_pulse[OF pulse_writeRegister] pulse_writeRegister by blast
  have r0: "length ?bs = 8" by (rule length_sample_bits)
  have r1: "readRegister ev d reg tr =
        (byte_of_bits ?bs,
         tr @ High (rst d) # writeByte_events d reg @ readByte_events d ?bs @ [Low (rst d)])"
    by (simp only: readRegister_trace readRegister_events_def)
  have r2: "readRegister_events d reg ?bs =
              High (rst d) # writeByte_events d reg @ readByte_events d ?bs @ [Low (rst d)]"
    by (simp only: readRegister_events_def)
  have r3: "wired d \<longrightarrow>
         one_select_pulse d (readRegister_events d reg ?bs) \<and>
         (readRegister_events d reg ?bs = pre' @ e' # post' \<and> pin_of e' \<noteq> Some (rst d)
            \<longrightarrow> level (rst d) (tr @ pre') = Some True)"
    using selected_inside_pulse[OF pulse_readRegister] pulse_readRegister by blast
  have r: "\<exists>bs. length bs = 8 \<and>
      readRegister ev d reg tr =
        (byte_of_bits bs,
         tr @ High (rst d) # writeByte_events d reg @ readByte_events d bs @ [Low (rst d)]) \<and>
      readRegister_events d reg bs =
        High (rst d) # writeByte_events d reg @ readByte_events d bs @ [Low (rst d)] \<and>
      (wired d \<longrightarrow>
         one_select_pulse d (readRegister_events d reg bs) \<and>
         (readRegister_events d reg bs = pre' @ e' # post' \<and> pin_of e' \<noteq> Some (rst d)
            \<longrightarrow> level (rst d) (tr @ pre') = Some True))"
    by (rule exI[of _ ?bs]) (intro conjI; fact r0 r1 r2 r3)
  show ?thesis
    by (intro conjI; fact w1 w2 w3 r)
qed

lemma wired_example: "wired example_rtc"
  by (simp add: wired_def example_rtc_def NewDS1302_def)

theorem register_access_select_pulse_witness:
  "wired example_rtc \<and>
   one_select_pulse example_rtc (writeRegister_events example_rtc 0x80 0x59) \<and>
   writeRegister_events example_rtc 0x80 0x59 =
     (High (rst example_rtc) # writeByte_events example_rtc 0x80) @
       Configure (dat example_rtc) PinOutput #
       (concat (map (write_bit_events example_rtc 0x59) [0..<8]) @ [Low (rst example_rtc)]) \<and>
   pin_of (Configure (dat example_rtc) PinOutput) \<noteq> Some (rst example_rtc) \<and>
   level (rst example_rtc)
     ([] @ High (rst example_rtc) # writeByte_events example_rtc 0x80) = Some True"
proof -
  have s: "writeRegister_events example_rtc 0x80 0x59 =
        (High (rst example_rtc) # writeByte_events example_rtc 0x80) @
         Configure (dat example_rtc) PinOutput #
         (concat (map (write_bit_events example_rtc 0x59) [0..<8]) @ [Low (rst example_rtc)])"
    by (simp add: writeRegister_events_def writeByte_events_def)
  have p: "pin_of (Configure (dat example_rtc) PinOutput) \<noteq> Some (rst example_rtc)"
    by (simp add: example_rtc_def NewDS1302_def)
  note th = register_access_select_pulse[where d = example_rtc and reg = "0x80" and v = "0x59"
        and pre = "High (rst example_rtc) # writeByte_events example_rtc 0x80"
        and e = "Configure (dat example_rtc) PinOutput"
        and post = "concat (map (write_bit_events example_rtc 0x59) [0..<8]) @ [Low (rst example_rtc)]"
        and tr = "[]", THEN conjunct2, THEN conjunct2, THEN conjunct1, THEN mp, OF wired_example]
  show ?thesis
    using th s p wired_example by blast
qed

section \<open>Idle line levels\<close>

lemma foldl_concat_last:
  assumes "xs \<noteq> []" and "\<And>x l. x \<in> set xs \<Longrightarrow> foldl f l (g x) = c"
  shows "foldl f l (concat (map g xs)) = c"
  using assms
proof (induction xs arbitrary: l rule: rev_induct)
  case Nil
  then show ?case by simp
next
  case (snoc x xs)
  then show ?case by simp
qed

lemma clk_low_write_bit: "foldl (drive (clk d)) l (write_bit_events d data i) = Some False"
  by (simp add: write_bit_events_def)

lemma clk_low_read_bit: "foldl (drive (clk d)) l (read_bit_events d b) = Some False"
  by (simp add: read_bit_events_def)

lemma clk_low_writeByte: "foldl (drive (clk d)) l (writeByte_events d data) = Some False"
  unfolding writeByte_events_def
  by (simp only: foldl_Cons) (rule foldl_concat_last, simp, rule clk_low_write_bit)

lemma clk_low_readByte:
  "bs \<noteq> [] \<Longrightarrow> foldl (drive (clk d)) l (readByte_events d bs) = Some False"
  unfolding readByte_events_def
  by (simp only: foldl_Cons) (rule foldl_concat_last, assumption, rule clk_low_read_bit)

lemma drive_Low_keeps_low: "drive p (Some False) (Low q) = Some False"
  by simp

lemma clk_low_writeRegister:
  "foldl (drive (clk d)) l (writeRegister_events d reg v) = Some False"
  by (simp only: writeRegister_events_def foldl_Cons foldl_append clk_low_writeByte
        drive_Low_keeps_low foldl_Nil)

lemma clk_low_readRegister:
  "bs \<noteq> [] \<Longrightarrow> foldl (drive (clk d)) l (readRegister_events d reg bs) = Some False"
  by (simp add: readRegister_events_def clk_low_readByte)

lemma rst_low_writeRegister:
  "foldl (drive (rst d)) l (writeRegister_events d reg v) = Some False"
  by (simp add: writeRegister_events_def)

lemma rst_low_readRegister:
  "foldl (drive (rst d)) l (readRegister_events d reg bs) = Some False"
  by (simp add: readRegister_events_def)

lemma sample_bits_8_nonempty: "sample_bits ev d 8 tr \<noteq> []"
  using length_sample_bits[of ev d 8 tr] by (metis list.size(3) zero_neq_numeral)

lemma idle_writeRegister:
  "level (clk d) (writeRegister d reg v tr) = Some False \<and>
   level (rst d) (writeRegister d reg v tr) = Some False"
  by (simp only: writeRegister_trace level_append clk_low_writeRegister rst_low_writeRegister)

lemma idle_readRegister:
  "level (clk d) (snd (readRegister ev d reg tr)) = Some False \<and>
   level (rst d) (snd (readRegister ev d reg tr)) = Some False"
  by (simp only: readRegister_trace snd_conv level_append
        clk_low_readRegister[OF sample_bits_8_nonempty] rst_low_readRegister)

lemma idle_Init:
  "level (clk d) (Init d tr) = Some False \<and> level (rst d) (Init d tr) = Some False"
  by (simp add: Init_def pin_Configure_def pin_Low_def level_append)

lemma idle_SetTime:
  "level (clk d) (SetTime d t tr) = Some False \<and> level (rst d) (SetTime d t tr) = Some False"
  unfolding SetTime_def Let_def by (rule idle_writeRegister)

lemma ReadTime_decode_last:
  "\<exists>tr'. snd (ReadTime_decode ev d tr) = snd (readRegister ev d DS1302_YEAR_READ tr')"
  by (simp add: ReadTime_decode_def Let_def split_beta) blast

lemma idle_ReadTime:
  "level (clk d) (snd (ReadTime ev d tr)) = Some False \<and>
   level (rst d) (snd (ReadTime ev d tr)) = Some False"
proof -
  obtain tr' where "snd (ReadTime_decode ev d tr) = snd (readRegister ev d DS1302_YEAR_READ tr')"
    using ReadTime_decode_last by blast
  moreover have "snd (ReadTime ev d tr) = snd (ReadTime_decode ev d tr)"
    by (simp add: ReadTime_def split_beta)
  ultimately show ?thesis by (simp only: idle_readRegister simp_thms)
qed

text \<open>
  C10. After \<open>Init\<close> and after every complete register transaction, and so after
  \<open>SetTime\<close> and \<open>ReadTime\<close>, the level last driven on the clock line and on the
  chip-select line is low, whatever the trace before; every bit cell of \<open>writeByte\<close> and
  of \<open>readByte\<close> ends with the clock low.
\<close>

theorem idle_lines_restored:
  "level (clk d) (Init d tr) = Some False \<and> level (rst d) (Init d tr) = Some False \<and>
   level (clk d) (writeRegister d reg v tr) = Some False \<and>
   level (rst d) (writeRegister d reg v tr) = Some False \<and>
   level (clk d) (snd (readRegister ev d reg tr)) = Some False \<and>
   level (rst d) (snd (readRegister ev d reg tr)) = Some False \<and>
   level (clk d) (SetTime d t tr) = Some False \<and>
   level (rst d) (SetTime d t tr) = Some False \<and>
   level (clk d) (snd (ReadTime ev d tr)) = Some False \<and>
   level (rst d) (snd (ReadTime ev d tr)) = Some False \<and>
   level (clk d) (tr @ write_bit_events d data i) = Some False \<and>
   level (clk d) (tr @ read_bit_events d b) = Some False \<and>
   level (clk d) (writeByte d data tr) = Some False \<and>
   level (clk d) (snd (readByte ev d tr)) = Some False"
  by (simp only: idle_Init idle_writeRegister idle_readRegister idle_SetTime idle_ReadTime
        level_append clk_low_write_bit clk_low_read_bit writeByte_trace readByte_trace
        snd_conv clk_low_writeByte clk_low_readByte[OF sample_bits_8_nonempty] simp_thms)

section \<open>The substitute backend is inert\<close>

lemma stub_run_eq:
  "stub_run cs tr = (replicate (length (filter (\<lambda>c. c = CallReadTime) cs)) Time_zero, tr)"
  by (induction cs tr rule: stub_run.induct)
     (simp_all add: stub_Init_def stub_SetTime_def stub_ReadTime_def)

text \<open>
  C9. On the substitute backend, any sequence of \<open>Init\<close>, \<open>SetTime\<close> and \<open>ReadTime\<close>
  calls leaves the trace of pin operations as it was, every call returns (the model has no
  failing branch), and each \<open>ReadTime\<close> returns the zero timestamp, whatever was set
  before.
\<close>

theorem stub_backend_inert:
  "snd (stub_run cs tr) = tr \<and>
   fst (stub_run cs tr) = replicate (length (filter (\<lambda>c. c = CallReadTime) cs)) Time_zero \<and>
   stub_Init tr = tr \<and> stub_SetTime t tr = tr \<and> stub_ReadTime tr = (Time_zero, tr) \<and>
   Time_zero = \<lparr>Year = 1, Month = 1, Day = 1, Hour = 0, Minute = 0, Second = 0,
                 Nanosecond = 0, Loc = UTC\<rparr>"
  by (simp add: stub_run_eq stub_Init_def stub_SetTime_def stub_ReadTime_def Time_zero_def)

section \<open>The driver against the simulated chip\<close>

lemma chip_run_append: "chip_run d c0 (tr @ evs) = foldl (chip_step d) (chip_run d c0 tr) evs"
  by (simp add: chip_run_def)

lemma wired_neq:
  assumes "wired d"
  shows "clk d \<noteq> rst d" "dat d \<noteq> rst d" "dat d \<noteq> clk d"
  using assms by (auto simp: wired_def)

lemma take_bit_Suc_or:
  "take_bit (Suc i) (a::u8) = (if bit a i then take_bit i a OR push_bit i 1 else take_bit i a)"
  by (rule bit_eqI) (auto simp: bit_simps less_Suc_eq)

lemma take_bit_8_u8: "take_bit 8 (a::u8) = a"
  using take_bit_length_eq[of a] by simp

text \<open>One bit cell of \<open>writeByte\<close>, as the chip sees it.\<close>

lemma chip_write_cell:
  assumes w: "wired d" and ce: "ce c"
  shows "foldl (chip_step d) c (write_bit_events d a i) =
         clock_fall (clock_rise (c\<lparr>io := bit a i\<rparr>))"
proof -
  have "ce (clock_rise (c\<lparr>io := b\<rparr>))" for b
    using ce by (simp add: clock_rise_def Let_def)
  then show ?thesis
    using ce wired_neq[OF w] by (simp add: write_bit_events_def)
qed


lemma chip_cmd_cell:
  assumes w: "wired d" and ce: "ce c" and n: "nbits c = i" and i: "i < 8"
    and cm: "cmd c = take_bit i a"
  defines "c' \<equiv> foldl (chip_step d) c (write_bit_events d a i)"
  shows "ce c' \<and> nbits c' = Suc i \<and> cmd c' = take_bit (Suc i) a \<and> regs c' = regs c \<and>
         log c' = log c \<and> shift c' = shift c \<and>
         (i = 7 \<longrightarrow> bit a 0 \<longrightarrow> out c' = bit (regs c (a - 1)) 0)"
proof -
  define c1 where "c1 = clock_rise (c\<lparr>io := bit a i\<rparr>)"
  have r: "c1 = c\<lparr>io := bit a i, cmd := take_bit (Suc i) a, nbits := Suc i\<rparr>"
    using n i cm by (simp add: c1_def clock_rise_def take_bit_Suc_or)
  have c': "c' = clock_fall c1"
    unfolding c'_def c1_def by (rule chip_write_cell[OF w ce])
  show ?thesis
  proof (cases "i = 7")
    case True
    then have "c1 = c\<lparr>io := bit a i, cmd := a, nbits := 8\<rparr>"
      using r take_bit_8_u8[of a] by simp
    then show ?thesis
      using ce True by (simp add: c' clock_fall_def take_bit_8_u8)
  next
    case False
    with i have "Suc i < 8" by simp
    then have "clock_fall c1 = c1" by (simp add: r clock_fall_def)
    then show ?thesis using ce False by (simp add: c' r)
  qed
qed

lemma chip_cmd_cells:
  assumes w: "wired d"
  shows "ce c \<Longrightarrow> nbits c = i \<Longrightarrow> i \<le> 8 \<Longrightarrow> cmd c = take_bit i a \<Longrightarrow>
     ce (foldl (chip_step d) c (concat (map (write_bit_events d a) [i..<8]))) \<and>
     nbits (foldl (chip_step d) c (concat (map (write_bit_events d a) [i..<8]))) = 8 \<and>
     cmd (foldl (chip_step d) c (concat (map (write_bit_events d a) [i..<8]))) = a \<and>
     regs (foldl (chip_step d) c (concat (map (write_bit_events d a) [i..<8]))) = regs c \<and>
     log (foldl (chip_step d) c (concat (map (write_bit_events d a) [i..<8]))) = log c \<and>
     shift (foldl (chip_step d) c (concat (map (write_bit_events d a) [i..<8]))) = shift c \<and>
     (i < 8 \<longrightarrow> bit a 0 \<longrightarrow>
        out (foldl (chip_step d) c (concat (map (write_bit_events d a) [i..<8])))
          = bit (regs c (a - 1)) 0)"
proof (induction "8 - i" arbitrary: i c)
  case 0
  then have "i = 8" by simp
  with 0 show ?case by (simp add: take_bit_8_u8)
next
  case (Suc n)
  then have lt: "i < 8" and n: "n = 8 - Suc i" and le: "Suc i \<le> 8" by simp_all
  have u: "[i..<8] = i # [Suc i..<8]" using lt by (simp add: upt_conv_Cons)
  define c1 where "c1 = foldl (chip_step d) c (write_bit_events d a i)"
  note cell = chip_cmd_cell[OF w Suc.prems(1) Suc.prems(2) lt Suc.prems(4), folded c1_def]
  from cell have p1: "ce c1" "nbits c1 = Suc i" "cmd c1 = take_bit (Suc i) a" by simp_all
  note ih = Suc.hyps(1)[OF n p1(1) p1(2) le p1(3)]
  have f: "foldl (chip_step d) c (concat (map (write_bit_events d a) [i..<8])) =
           foldl (chip_step d) c1 (concat (map (write_bit_events d a) [Suc i..<8]))"
    by (simp add: u c1_def)
  show ?case
  proof (cases "Suc i < 8")
    case True
    with ih cell show ?thesis unfolding f by simp
  next
    case False
    with lt have i7: "i = 7" by simp
    with ih cell show ?thesis unfolding f by simp
  qed
qed

lemma chip_send_command:
  fixes a :: u8
  assumes w: "wired d" and ce: "ce c" and n: "nbits c = 0" and cm: "cmd c = 0"
  defines "c' \<equiv> foldl (chip_step d) c (writeByte_events d a)"
  shows "ce c' \<and> nbits c' = 8 \<and> cmd c' = a \<and> regs c' = regs c \<and> log c' = log c \<and>
         shift c' = shift c \<and> (bit a 0 \<longrightarrow> out c' = bit (regs c (a - 1)) 0)"
proof -
  have "c' = foldl (chip_step d) c (concat (map (write_bit_events d a) [0..<8]))"
    by (simp add: c'_def writeByte_events_def)
  then show ?thesis
    using chip_cmd_cells[OF w ce n, of a] cm by simp
qed


text \<open>The data byte of a write, as the chip sees it.\<close>

lemma chip_data_cell:
  assumes w: "wired d" and ce: "ce c" and n: "nbits c = 8 + i" and i: "i < 8"
    and wr: "\<not> bit (cmd c) 0" and sh: "shift c = take_bit i v"
  defines "c' \<equiv> foldl (chip_step d) c (write_bit_events d v i)"
  shows "ce c' \<and> nbits c' = 8 + Suc i \<and> cmd c' = cmd c \<and> shift c' = take_bit (Suc i) v \<and>
         (i < 7 \<longrightarrow> regs c' = regs c \<and> log c' = log c) \<and>
         (i = 7 \<longrightarrow> regs c' = (regs c)(cmd c := v) \<and> log c' = log c @ [(cmd c, v)])"
proof -
  define c1 where "c1 = clock_rise (c\<lparr>io := bit v i\<rparr>)"
  have c': "c' = clock_fall c1"
    unfolding c'_def c1_def by (rule chip_write_cell[OF w ce])
  define s where "s = (if bit v i then shift c OR push_bit i 1 else shift c)"
  have s: "s = take_bit (Suc i) v"
    unfolding s_def sh by (simp only: take_bit_Suc_or)
  have c1: "c1 = (if i = 7
      then c\<lparr>io := bit v i, shift := s, nbits := 16, regs := (regs c)(cmd c := s),
             log := log c @ [(cmd c, s)]\<rparr>
      else c\<lparr>io := bit v i, shift := s, nbits := 8 + Suc i\<rparr>)"
    using n i wr by (simp add: c1_def clock_rise_def Let_def s_def)
  have t: "i = 7 \<Longrightarrow> s = v"
    using take_bit_8_u8[of v] by (simp add: s)
  have "clock_fall c1 = c1"
    using wr by (simp add: c1 clock_fall_def)
  then have c'eq: "c' = c1" by (simp add: c')
  have main: "ce c1 \<and> nbits c1 = 8 + Suc i \<and> cmd c1 = cmd c \<and> shift c1 = s \<and>
         (i < 7 \<longrightarrow> regs c1 = regs c \<and> log c1 = log c) \<and>
         (i = 7 \<longrightarrow> regs c1 = (regs c)(cmd c := s) \<and> log c1 = log c @ [(cmd c, s)])"
    using ce i by (simp add: c1)
  show ?thesis
    unfolding c'eq s[symmetric] using main t by auto
qed

lemma chip_data_cells:
  assumes w: "wired d"
  shows "ce c \<Longrightarrow> nbits c = 8 + i \<Longrightarrow> i < 8 \<Longrightarrow> \<not> bit (cmd c) 0 \<Longrightarrow> shift c = take_bit i v \<Longrightarrow>
     regs (foldl (chip_step d) c (concat (map (write_bit_events d v) [i..<8])))
       = (regs c)(cmd c := v) \<and>
     log (foldl (chip_step d) c (concat (map (write_bit_events d v) [i..<8])))
       = log c @ [(cmd c, v)]"
proof (induction "7 - i" arbitrary: i c)
  case 0
  then have i7: "i = 7" by simp
  have u: "[i..<8] = [7]" by (simp add: i7 upt_rec)
  from chip_data_cell[OF w "0.prems"(1,2,3,4,5)] i7 show ?case
    by (simp add: u)
next
  case (Suc n)
  then have lt: "i < 7" and n: "n = 7 - Suc i" and lt': "Suc i < 8" by simp_all
  have u: "[i..<8] = i # [Suc i..<8]" using lt by (simp add: upt_conv_Cons)
  define c1 where "c1 = foldl (chip_step d) c (write_bit_events d v i)"
  note cell = chip_data_cell[OF w Suc.prems(1,2,3,4,5), folded c1_def]
  from cell have p1: "ce c1" "nbits c1 = 8 + Suc i" "\<not> bit (cmd c1) 0"
      "shift c1 = take_bit (Suc i) v"
    using Suc.prems(4) by simp_all
  note ih = Suc.hyps(1)[OF n p1(1) p1(2) lt' p1(3) p1(4)]
  have f: "foldl (chip_step d) c (concat (map (write_bit_events d v) [i..<8])) =
           foldl (chip_step d) c1 (concat (map (write_bit_events d v) [Suc i..<8]))"
    by (simp add: u c1_def)
  from ih cell lt show ?case unfolding f by simp
qed

text \<open>A whole register write, from any state of the chip.\<close>

lemma chip_writeRegister:
  assumes w: "wired d" and a: "\<not> bit a 0"
  shows "regs (foldl (chip_step d) c (writeRegister_events d a v)) = (regs c)(a := v) \<and>
         log (foldl (chip_step d) c (writeRegister_events d a v)) = log c @ [(a, v)]"
proof -
  define c1 where "c1 = chip_step d c (High (rst d))"
  have c1: "ce c1" "nbits c1 = 0" "cmd c1 = 0" "shift c1 = 0" "regs c1 = regs c" "log c1 = log c"
    by (simp_all add: c1_def)
  define c2 where "c2 = foldl (chip_step d) c1 (writeByte_events d a)"
  note cmdp = chip_send_command[OF w c1(1,2,3), of a, folded c2_def]
  define c3 where "c3 = foldl (chip_step d) c2 (concat (map (write_bit_events d v) [0..<8]))"
  have c2: "ce c2" "nbits c2 = 8 + 0" "\<not> bit (cmd c2) 0" "shift c2 = take_bit 0 v"
    using cmdp a c1 by simp_all
  note datp = chip_data_cells[OF w c2(1,2) _ c2(3,4), folded c3_def]
  have c3: "regs c3 = (regs c)(a := v)" "log c3 = log c @ [(a, v)]"
    using datp cmdp c1 by simp_all
  have "foldl (chip_step d) c (writeRegister_events d a v) = chip_step d c3 (Low (rst d))"
    by (simp add: writeRegister_events_def c1_def c2_def c3_def writeByte_events_def[of d v])
  then show ?thesis using c3 by simp
qed


text \<open>The data byte of a read.\<close>

lemma chip_read_cell:
  assumes w: "wired d" and ce: "ce c"
  shows "foldl (chip_step d) c (read_bit_events d b) = clock_fall (clock_rise c)"
proof -
  have "ce (clock_rise c)" using ce by (simp add: clock_rise_def Let_def)
  then show ?thesis using ce wired_neq[OF w] by (simp add: read_bit_events_def)
qed

lemma chip_sample:
  assumes w: "wired d" and ce: "ce (chip_run d c0 tr)"
  shows "chip_env d c0 (tr @ [High (clk d), Sleep Microsecond]) (dat d) = out (chip_run d c0 tr)"
proof -
  have "out (clock_rise c) = out c" for c by (simp add: clock_rise_def Let_def)
  then show ?thesis
    using ce wired_neq[OF w] by (simp add: chip_env_def chip_run_append)
qed

lemma chip_read_cell_state:
  assumes ce: "ce c" and n: "nbits c = 8 + k" and k: "k < 8" and rd: "bit (cmd c) 0"
  defines "c' \<equiv> clock_fall (clock_rise c)"
  shows "ce c' \<and> nbits c' = 8 + Suc k \<and> cmd c' = cmd c \<and> regs c' = regs c \<and>
         out c' = bit (regs c (cmd c - 1)) (Suc k) \<and>
         log c' = (if k = 7 then log c @ [(cmd c, regs c (cmd c - 1))] else log c)"
proof -
  have r: "clock_rise c = (if k = 7
             then c\<lparr>nbits := 16, log := log c @ [(cmd c, regs c (cmd c - 1))]\<rparr>
             else c\<lparr>nbits := 8 + Suc k\<rparr>)"
    using n k rd by (simp add: clock_rise_def)
  show ?thesis
    using ce rd k by (cases "k = 7") (simp_all add: c'_def r clock_fall_def)
qed

lemma chip_read_cells:
  assumes w: "wired d"
  shows "chip_run d c0 tr = c \<Longrightarrow> ce c \<Longrightarrow> nbits c = 8 + k \<Longrightarrow> bit (cmd c) 0 \<Longrightarrow>
     out c = bit (regs c (cmd c - 1)) k \<Longrightarrow> k + n \<le> 8 \<Longrightarrow>
     sample_bits (chip_env d c0) d n tr = map (bit (regs c (cmd c - 1))) [k..<k + n] \<and>
     regs (chip_run d c0 (tr @ concat (map (read_bit_events d)
        (map (bit (regs c (cmd c - 1))) [k..<k + n])))) = regs c \<and>
     log (chip_run d c0 (tr @ concat (map (read_bit_events d)
        (map (bit (regs c (cmd c - 1))) [k..<k + n])))) =
       (if 0 < n \<and> k + n = 8 then log c @ [(cmd c, regs c (cmd c - 1))] else log c)"
proof (induction n arbitrary: tr c k)
  case 0
  then show ?case by simp
next
  case (Suc n)
  let ?r = "regs c (cmd c - 1)"
  from Suc.prems have k: "k < 8" and le: "Suc k + n \<le> 8" by simp_all
  have b: "chip_env d c0 (tr @ [High (clk d), Sleep Microsecond]) (dat d) = bit ?r k"
    using chip_sample[OF w, of c0 tr] Suc.prems by simp
  define c1 where "c1 = clock_fall (clock_rise c)"
  have run1: "chip_run d c0 (tr @ read_bit_events d (bit ?r k)) = c1"
    using chip_read_cell[OF w Suc.prems(2)] Suc.prems(1) by (simp add: chip_run_append c1_def)
  note st = chip_read_cell_state[OF Suc.prems(2) Suc.prems(3) k Suc.prems(4), folded c1_def]
  from st have p: "ce c1" "nbits c1 = 8 + Suc k" "bit (cmd c1) 0"
      "out c1 = bit (regs c1 (cmd c1 - 1)) (Suc k)"
    using Suc.prems(4) by simp_all
  have r1: "cmd c1 = cmd c" "regs c1 = regs c" using st by simp_all
  note ih = Suc.IH[OF run1 p(1) p(2) p(3) p(4) le, unfolded r1]
  note ih1 = conjunct1[OF ih] and ih2 = conjunct1[OF conjunct2[OF ih]]
    and ih3 = conjunct2[OF conjunct2[OF ih]]
  have u: "[k..<k + Suc n] = k # [Suc k..<Suc k + n]" by (simp add: upt_conv_Cons)
  have s: "sample_bits (chip_env d c0) d (Suc n) tr =
           bit ?r k # sample_bits (chip_env d c0) d n (tr @ read_bit_events d (bit ?r k))"
    by (simp only: sample_bits.simps Let_def b)
  have t: "tr @ concat (map (read_bit_events d) (map (bit ?r) (k # [Suc k..<Suc k + n]))) =
           (tr @ read_bit_events d (bit ?r k)) @
             concat (map (read_bit_events d) (map (bit ?r) [Suc k..<Suc k + n]))"
    by (simp only: list.map concat.simps append_assoc)
  have lg: "(if 0 < n \<and> Suc k + n = 8 then log c1 @ [(cmd c, ?r)] else log c1) =
            (if 0 < Suc n \<and> k + Suc n = 8 then log c @ [(cmd c, ?r)] else log c)"
    using st le by (cases "n = 0") auto
  show ?case
    unfolding u s t ih1 ih2 ih3 lg by (simp only: list.map simp_thms)
qed

lemma byte_of_bits_map_bit: "byte_of_bits (map (bit (r::u8)) [0..<8]) = r"
  by (rule bit_eqI) (auto simp: bit_byte_of_bits dest: bit_imp_le_length)

text \<open>A whole register read, from any state of the chip.\<close>

lemma chip_readRegister:
  fixes c0 :: chip and tr :: trace
  assumes w: "wired d" and a: "bit a 0"
  defines "r \<equiv> regs (chip_run d c0 tr) (a - 1)"
  shows "readRegister (chip_env d c0) d a tr =
           (r, tr @ readRegister_events d a (map (bit r) [0..<8]))"
    and "regs (chip_run d c0 (tr @ readRegister_events d a (map (bit r) [0..<8])))
           = regs (chip_run d c0 tr)"
    and "log (chip_run d c0 (tr @ readRegister_events d a (map (bit r) [0..<8])))
           = log (chip_run d c0 tr) @ [(a, r)]"
proof -
  define c where "c = chip_run d c0 tr"
  define c1 where "c1 = chip_step d c (High (rst d))"
  have c1: "ce c1" "nbits c1 = 0" "cmd c1 = 0" "regs c1 = regs c" "log c1 = log c"
    by (simp_all add: c1_def)
  define c2 where "c2 = foldl (chip_step d) c1 (writeByte_events d a)"
  note cmdp = chip_send_command[OF w c1(1,2,3), of a, folded c2_def]
  define tr2 where "tr2 = tr @ High (rst d) # writeByte_events d a @ [Configure (dat d) PinInput]"
  have run2: "chip_run d c0 tr2 = c2"
    by (simp add: tr2_def chip_run_append c_def c1_def c2_def)
  have c2: "ce c2" "nbits c2 = 8 + 0" "bit (cmd c2) 0" "out c2 = bit (regs c2 (cmd c2 - 1)) 0"
    using cmdp a c1 by simp_all
  have e2: "cmd c2 = a" "regs c2 = regs c" "log c2 = log c"
    using cmdp c1 by simp_all
  have rr: "regs c (a - 1) = r" by (simp add: r_def c_def)
  have le8: "0 + 8 \<le> (8::nat)" by simp
  note rd = chip_read_cells[OF w run2 c2(1,2,3,4) le8, unfolded e2 rr]
  have z: "0 + 8 = (8::nat)" "(0 < (8::nat) \<and> True) = True" by simp_all
  note rd1 = conjunct1[OF rd, unfolded z] and rd2 = conjunct1[OF conjunct2[OF rd], unfolded z]
    and rd3 = conjunct2[OF conjunct2[OF rd], unfolded z simp_thms if_True]
  have bs: "sample_bits (chip_env d c0) d 8 tr2 = map (bit r) [0..<8]"
    by (rule rd1)
  show "readRegister (chip_env d c0) d a tr =
           (r, tr @ readRegister_events d a (map (bit r) [0..<8]))"
    by (simp only: readRegister_trace tr2_def[symmetric] bs byte_of_bits_map_bit)
  have e: "tr @ readRegister_events d a (map (bit r) [0..<8]) =
           (tr2 @ concat (map (read_bit_events d) (map (bit r) [0..<8]))) @ [Low (rst d)]"
    by (simp add: readRegister_events_def tr2_def readByte_events_def)
  have fin: "chip_run d c0 (tr @ readRegister_events d a (map (bit r) [0..<8])) =
       chip_step d (chip_run d c0 (tr2 @ concat (map (read_bit_events d) (map (bit r) [0..<8]))))
          (Low (rst d))"
    unfolding e by (simp only: chip_run_append foldl_Cons foldl_Nil)
  show "regs (chip_run d c0 (tr @ readRegister_events d a (map (bit r) [0..<8])))
           = regs (chip_run d c0 tr)"
    unfolding fin using rd2 by (simp add: c_def)
  show "log (chip_run d c0 (tr @ readRegister_events d a (map (bit r) [0..<8])))
           = log (chip_run d c0 tr) @ [(a, r)]"
    unfolding fin using rd3 by (simp add: c_def)
qed

section \<open>The facade against the simulated chip\<close>

lemma chip_run_writeRegister:
  assumes w: "wired d" and a: "\<not> bit a 0"
  shows "regs (chip_run d c0 (writeRegister d a v tr)) = (regs (chip_run d c0 tr))(a := v)"
    and "log (chip_run d c0 (writeRegister d a v tr)) = log (chip_run d c0 tr) @ [(a, v)]"
  using chip_writeRegister[OF w a, of "chip_run d c0 tr" v]
  by (simp_all only: writeRegister_trace chip_run_append)

lemma write_addresses:
  "\<not> bit DS1302_WP_WRITE 0" "\<not> bit DS1302_SECONDS_WRITE 0" "\<not> bit DS1302_MINUTES_WRITE 0"
  "\<not> bit DS1302_HOURS_WRITE 0" "\<not> bit DS1302_DATE_WRITE 0" "\<not> bit DS1302_MONTH_WRITE 0"
  "\<not> bit DS1302_YEAR_WRITE 0"
  by (simp_all add: reg_defs)

lemma chip_SetTime:
  assumes w: "wired d"
  shows "regs (chip_run d c0 (SetTime d t tr)) =
           (regs (chip_run d c0 tr))
             (DS1302_WP_WRITE := 0x00,
              DS1302_SECONDS_WRITE := decToBcd (word_of_int (Second t)),
              DS1302_MINUTES_WRITE := decToBcd (word_of_int (Minute t)),
              DS1302_HOURS_WRITE := decToBcd (word_of_int (Hour t)),
              DS1302_DATE_WRITE := decToBcd (word_of_int (Day t)),
              DS1302_MONTH_WRITE := decToBcd (word_of_int (Month t)),
              DS1302_YEAR_WRITE := decToBcd (word_of_int (Year t - 2000)),
              DS1302_WP_WRITE := 0x80)"
    and "log (chip_run d c0 (SetTime d t tr)) =
           log (chip_run d c0 tr) @
             [(DS1302_WP_WRITE, 0x00),
              (DS1302_SECONDS_WRITE, decToBcd (word_of_int (Second t))),
              (DS1302_MINUTES_WRITE, decToBcd (word_of_int (Minute t))),
              (DS1302_HOURS_WRITE, decToBcd (word_of_int (Hour t))),
              (DS1302_DATE_WRITE, decToBcd (word_of_int (Day t))),
              (DS1302_MONTH_WRITE, decToBcd (word_of_int (Month t))),
              (DS1302_YEAR_WRITE, decToBcd (word_of_int (Year t - 2000))),
              (DS1302_WP_WRITE, 0x80)]"
  unfolding SetTime_def Let_def
  by (simp_all only: chip_run_writeRegister[OF w write_addresses(1)]
        chip_run_writeRegister[OF w write_addresses(2)]
        chip_run_writeRegister[OF w write_addresses(3)]
        chip_run_writeRegister[OF w write_addresses(4)]
        chip_run_writeRegister[OF w write_addresses(5)]
        chip_run_writeRegister[OF w write_addresses(6)]
        chip_run_writeRegister[OF w write_addresses(7)] append_assoc append.simps)

lemma chip_read_step:
  assumes w: "wired d" and a: "bit a 0"
  shows "\<exists>tr'. readRegister (chip_env d c0) d a tr = (regs (chip_run d c0 tr) (a - 1), tr') \<and>
           regs (chip_run d c0 tr') = regs (chip_run d c0 tr) \<and>
           log (chip_run d c0 tr') = log (chip_run d c0 tr) @ [(a, regs (chip_run d c0 tr) (a - 1))]"
  using chip_readRegister[OF w a, of c0 tr] by blast

lemma chip_ReadTime_decode:
  fixes c0 :: chip and tr :: trace
  assumes w: "wired d"
  defines "r \<equiv> regs (chip_run d c0 tr)"
  shows "fst (ReadTime_decode (chip_env d c0) d tr) =
           \<lparr>seconds = bcdToDec (r DS1302_SECONDS_WRITE AND 0x7F),
            minutes = bcdToDec (r DS1302_MINUTES_WRITE),
            hours = bcdToDec (r DS1302_HOURS_WRITE),
            day = bcdToDec (r DS1302_DATE_WRITE),
            month = bcdToDec (r DS1302_MONTH_WRITE),
            year = 2000 + uint (bcdToDec (r DS1302_YEAR_WRITE))\<rparr>"
    and "regs (chip_run d c0 (snd (ReadTime_decode (chip_env d c0) d tr))) = r"
    and "log (chip_run d c0 (snd (ReadTime_decode (chip_env d c0) d tr))) =
           log (chip_run d c0 tr) @
             [(DS1302_SECONDS_READ, r DS1302_SECONDS_WRITE),
              (DS1302_MINUTES_READ, r DS1302_MINUTES_WRITE),
              (DS1302_HOURS_READ, r DS1302_HOURS_WRITE),
              (DS1302_DATE_READ, r DS1302_DATE_WRITE),
              (DS1302_MONTH_READ, r DS1302_MONTH_WRITE),
              (DS1302_YEAR_READ, r DS1302_YEAR_WRITE)]"
proof -
  have b: "bit DS1302_SECONDS_READ 0" "bit DS1302_MINUTES_READ 0" "bit DS1302_HOURS_READ 0"
    "bit DS1302_DATE_READ 0" "bit DS1302_MONTH_READ 0" "bit DS1302_YEAR_READ 0"
    by (simp_all add: reg_defs)
  have m: "DS1302_SECONDS_READ - 1 = DS1302_SECONDS_WRITE"
    "DS1302_MINUTES_READ - 1 = DS1302_MINUTES_WRITE"
    "DS1302_HOURS_READ - 1 = DS1302_HOURS_WRITE"
    "DS1302_DATE_READ - 1 = DS1302_DATE_WRITE"
    "DS1302_MONTH_READ - 1 = DS1302_MONTH_WRITE"
    "DS1302_YEAR_READ - 1 = DS1302_YEAR_WRITE"
    by (simp_all add: reg_defs)
  obtain tr1 where r1: "readRegister (chip_env d c0) d DS1302_SECONDS_READ tr
        = (r DS1302_SECONDS_WRITE, tr1)"
      and g1: "regs (chip_run d c0 tr1) = r"
      and l1: "log (chip_run d c0 tr1) = log (chip_run d c0 tr) @
                 [(DS1302_SECONDS_READ, r DS1302_SECONDS_WRITE)]"
    using chip_read_step[OF w b(1), of c0 tr] unfolding m r_def by blast
  obtain tr2 where r2: "readRegister (chip_env d c0) d DS1302_MINUTES_READ tr1
        = (r DS1302_MINUTES_WRITE, tr2)"
      and g2: "regs (chip_run d c0 tr2) = r"
      and l2: "log (chip_run d c0 tr2) = log (chip_run d c0 tr1) @
                 [(DS1302_MINUTES_READ, r DS1302_MINUTES_WRITE)]"
    using chip_read_step[OF w b(2), of c0 tr1] unfolding m g1 by blast
  obtain tr3 where r3: "readRegister (chip_env d c0) d DS1302_HOURS_READ tr2
        = (r DS1302_HOURS_WRITE, tr3)"
      and g3: "regs (chip_run d c0 tr3) = r"
      and l3: "log (chip_run d c0 tr3) = log (chip_run d c0 tr2) @
                 [(DS1302_HOURS_READ, r DS1302_HOURS_WRITE)]"
    using chip_read_step[OF w b(3), of c0 tr2] unfolding m g2 by blast
  obtain tr4 where r4: "readRegister (chip_env d c0) d DS1302_DATE_READ tr3
        = (r DS1302_DATE_WRITE, tr4)"
      and g4: "regs (chip_run d c0 tr4) = r"
      and l4: "log (chip_run d c0 tr4) = log (chip_run d c0 tr3) @
                 [(DS1302_DATE_READ, r DS1302_DATE_WRITE)]"
    using chip_read_step[OF w b(4), of c0 tr3] unfolding m g3 by blast
  obtain tr5 where r5: "readRegister (chip_env d c0) d DS1302_MONTH_READ tr4
        = (r DS1302_MONTH_WRITE, tr5)"
      and g5: "regs (chip_run d c0 tr5) = r"
      and l5: "log (chip_run d c0 tr5) = log (chip_run d c0 tr4) @
                 [(DS1302_MONTH_READ, r DS1302_MONTH_WRITE)]"
    using chip_read_step[OF w b(5), of c0 tr4] unfolding m g4 by blast
  obtain tr6 where r6: "readRegister (chip_env d c0) d DS1302_YEAR_READ tr5
        = (r DS1302_YEAR_WRITE, tr6)"
      and g6: "regs (chip_run d c0 tr6) = r"
      and l6: "log (chip_run d c0 tr6) = log (chip_run d c0 tr5) @
                 [(DS1302_YEAR_READ, r DS1302_YEAR_WRITE)]"
    using chip_read_step[OF w b(6), of c0 tr5] unfolding m g5 by blast
  have e: "ReadTime_decode (chip_env d c0) d tr =
        (\<lparr>seconds = bcdToDec (r DS1302_SECONDS_WRITE AND 0x7F),
            minutes = bcdToDec (r DS1302_MINUTES_WRITE),
            hours = bcdToDec (r DS1302_HOURS_WRITE),
            day = bcdToDec (r DS1302_DATE_WRITE),
            month = bcdToDec (r DS1302_MONTH_WRITE),
            year = 2000 + uint (bcdToDec (r DS1302_YEAR_WRITE))\<rparr>, tr6)"
    unfolding ReadTime_decode_def
    by (simp only: r1 r2 r3 r4 r5 r6 Let_def prod.case)
  show "fst (ReadTime_decode (chip_env d c0) d tr) =
           \<lparr>seconds = bcdToDec (r DS1302_SECONDS_WRITE AND 0x7F),
            minutes = bcdToDec (r DS1302_MINUTES_WRITE),
            hours = bcdToDec (r DS1302_HOURS_WRITE),
            day = bcdToDec (r DS1302_DATE_WRITE),
            month = bcdToDec (r DS1302_MONTH_WRITE),
            year = 2000 + uint (bcdToDec (r DS1302_YEAR_WRITE))\<rparr>"
    by (simp only: e fst_conv)
  show "regs (chip_run d c0 (snd (ReadTime_decode (chip_env d c0) d tr))) = r"
    by (simp only: e snd_conv g6)
  show "log (chip_run d c0 (snd (ReadTime_decode (chip_env d c0) d tr))) =
           log (chip_run d c0 tr) @
             [(DS1302_SECONDS_READ, r DS1302_SECONDS_WRITE),
              (DS1302_MINUTES_READ, r DS1302_MINUTES_WRITE),
              (DS1302_HOURS_READ, r DS1302_HOURS_WRITE),
              (DS1302_DATE_READ, r DS1302_DATE_WRITE),
              (DS1302_MONTH_READ, r DS1302_MONTH_WRITE),
              (DS1302_YEAR_READ, r DS1302_YEAR_WRITE)]"
    by (simp only: e snd_conv l6 l5 l4 l3 l2 l1 append_assoc append.simps)
qed

section \<open>Normalisation by Date\<close>

lemma norm_in_range: "0 \<le> lo \<Longrightarrow> lo < base \<Longrightarrow> norm hi lo base = (hi, lo)"
  by (simp add: norm_def)

lemma normDay_in_range: "1 \<le> d \<Longrightarrow> d \<le> daysIn m y \<Longrightarrow> normDay y m d = (y, m, d)"
  by (subst normDay.simps) simp

lemma Date_in_range:
  assumes "1 \<le> m" "m \<le> 12" "1 \<le> dd" "dd \<le> daysIn m y" "0 \<le> h" "h \<le> 23"
    "0 \<le> mi" "mi \<le> 59" "0 \<le> s" "s \<le> 59" "0 \<le> ns" "ns < 1000000000"
  shows "Date y m dd h mi s ns loc =
         \<lparr>Year = y, Month = m, Day = dd, Hour = h, Minute = mi, Second = s,
          Nanosecond = ns, Loc = loc\<rparr>"
  using assms by (simp add: Date_def norm_in_range normDay_in_range)

section \<open>Round trip through the chip\<close>

lemma unat_word_of_int_u8: "0 \<le> x \<Longrightarrow> x < 256 \<Longrightarrow> unat (word_of_int x :: u8) = nat x"
  by (simp add: unat_eq_nat_uint uint_word_of_int)

lemma uint_word_of_int_u8: "0 \<le> x \<Longrightarrow> x < 256 \<Longrightarrow> uint (word_of_int x :: u8) = x"
  by (simp add: uint_word_of_int)

lemma bcd_field_round_trip:
  assumes "0 \<le> x" "x \<le> 99"
  shows "uint (bcdToDec (decToBcd (word_of_int x))) = x"
proof -
  have "unat (word_of_int x :: u8) \<le> 99"
    using assms by (simp add: unat_word_of_int_u8)
  then have "bcdToDec (decToBcd (word_of_int x)) = word_of_int x"
    by (rule bcdToDec_decToBcd)
  then show ?thesis using assms by (simp add: uint_word_of_int_u8)
qed

lemma decToBcd_bit7_clear:
  assumes "0 \<le> x" "x \<le> 79"
  shows "decToBcd (word_of_int x) AND 0x7F = decToBcd (word_of_int x)"
proof -
  have u: "unat (word_of_int x :: u8) = nat x" using assms by (simp add: unat_word_of_int_u8)
  then have "unat (decToBcd (word_of_int x)) = 16 * (nat x div 10) + nat x mod 10"
    using assms unat_decToBcd[of "word_of_int x"] by simp
  also have "\<dots> < 2 ^ 7"
  proof -
    have "nat x div 10 \<le> 7" using assms by simp
    moreover have "nat x mod 10 < 10" by simp
    ultimately show ?thesis by simp
  qed
  finally have "decToBcd (word_of_int x) < 2 ^ 7"
    by (simp add: word_less_nat_alt)
  then have "take_bit 7 (decToBcd (word_of_int x)) = decToBcd (word_of_int x)"
    by (simp add: less_mask_eq take_bit_eq_mask)
  then show ?thesis
    using take_bit_eq_mask[of 7 "decToBcd (word_of_int x)"] by (simp add: mask_eq_exp_minus_1)
qed

lemma daysIn_le_31: "daysIn m y \<le> 31"
  by (simp add: daysIn_def)

lemma ReadTime_eq: "ReadTime ev d tr =
    (Date_of (fst (ReadTime_decode ev d tr)), snd (ReadTime_decode ev d tr))"
  by (simp add: ReadTime_def split_beta)

lemma decoded_after_SetTime:
  assumes w: "wired d" and v: "valid_Time t" and y: "2000 \<le> Year t" "Year t \<le> 2099"
  shows "Date_of (fst (ReadTime_decode (chip_env d c0) d (SetTime d t tr))) =
         \<lparr>Year = Year t, Month = Month t, Day = Day t, Hour = Hour t, Minute = Minute t,
          Second = Second t, Nanosecond = 0, Loc = UTC\<rparr>"
proof -
  from v have r: "1 \<le> Month t" "Month t \<le> 12" "1 \<le> Day t" "Day t \<le> daysIn (Month t) (Year t)"
      "0 \<le> Hour t" "Hour t \<le> 23" "0 \<le> Minute t" "Minute t \<le> 59"
      "0 \<le> Second t" "Second t \<le> 59"
    by (simp_all add: valid_Time_def)
  have d31: "Day t \<le> 31" using r(4) daysIn_le_31[of "Month t" "Year t"] by simp
  have s: "uint (bcdToDec (decToBcd (word_of_int (Second t)) AND 0x7F)) = Second t"
    using r by (simp add: decToBcd_bit7_clear bcd_field_round_trip)
  have f: "uint (bcdToDec (decToBcd (word_of_int (Minute t)))) = Minute t"
      "uint (bcdToDec (decToBcd (word_of_int (Hour t)))) = Hour t"
      "uint (bcdToDec (decToBcd (word_of_int (Day t)))) = Day t"
      "uint (bcdToDec (decToBcd (word_of_int (Month t)))) = Month t"
      "uint (bcdToDec (decToBcd (word_of_int (Year t - 2000)))) = Year t - 2000"
    using r d31 y by (simp_all add: bcd_field_round_trip del: of_int_diff)
  have "fst (ReadTime_decode (chip_env d c0) d (SetTime d t tr)) =
        \<lparr>seconds = bcdToDec (decToBcd (word_of_int (Second t)) AND 0x7F),
         minutes = bcdToDec (decToBcd (word_of_int (Minute t))),
         hours = bcdToDec (decToBcd (word_of_int (Hour t))),
         day = bcdToDec (decToBcd (word_of_int (Day t))),
         month = bcdToDec (decToBcd (word_of_int (Month t))),
         year = 2000 + uint (bcdToDec (decToBcd (word_of_int (Year t - 2000))))\<rparr>"
    unfolding chip_ReadTime_decode(1)[OF w] chip_SetTime(1)[OF w]
    by (simp add: reg_defs del: of_int_diff)
  then show ?thesis
    using r by (simp add: Date_of_def s f Date_in_range del: of_int_diff)
qed


lemma initialTime_fields:
  "initialTime = \<lparr>Year = 2024, Month = 8, Day = 5, Hour = 21, Minute = 0, Second = 0,
                   Nanosecond = 0, Loc = UTC\<rparr>"
  unfolding initialTime_def by (rule Date_in_range) (simp_all add: daysIn_def)

lemma valid_initialTime: "valid_Time initialTime"
  by (simp add: initialTime_fields valid_Time_def daysIn_def)

text \<open>
  C1. Let the three lines be distinct pins and let the timestamp be a calendar date and
  time of day (as every \<^verbatim>\<open>time.Time\<close> is: seconds and minutes 0--59, hours 0--23, month
  1--12, day from 1 to the length of the month, at most 31) in a year from 2000 to 2099.
  Then \<open>SetTime\<close> followed by \<open>ReadTime\<close>, against the simulated chip in any state and
  after any earlier trace, returns a timestamp with the same second, minute, hour, day,
  month and year. The chip has seen eight writes and six reads, none of them at the
  day-of-week addresses \<open>0x8A\<close> and \<open>0x8B\<close>, and its day-of-week register is unchanged.
\<close>

theorem SetTime_ReadTime_round_trip:
  assumes "wired d" and "valid_Time t" and "2000 \<le> Year t" and "Year t \<le> 2099"
  shows "Second (fst (ReadTime (chip_env d c0) d (SetTime d t tr))) = Second t \<and>
         Minute (fst (ReadTime (chip_env d c0) d (SetTime d t tr))) = Minute t \<and>
         Hour (fst (ReadTime (chip_env d c0) d (SetTime d t tr))) = Hour t \<and>
         Day (fst (ReadTime (chip_env d c0) d (SetTime d t tr))) = Day t \<and>
         Month (fst (ReadTime (chip_env d c0) d (SetTime d t tr))) = Month t \<and>
         Year (fst (ReadTime (chip_env d c0) d (SetTime d t tr))) = Year t \<and>
         regs (chip_run d c0 (snd (ReadTime (chip_env d c0) d (SetTime d t tr)))) DS1302_DAY_WRITE
           = regs (chip_run d c0 tr) DS1302_DAY_WRITE \<and>
         map fst (drop (length (log (chip_run d c0 tr)))
            (log (chip_run d c0 (snd (ReadTime (chip_env d c0) d (SetTime d t tr))))))
           = [0x8E, 0x80, 0x82, 0x84, 0x86, 0x88, 0x8C, 0x8E,
              0x81, 0x83, 0x85, 0x87, 0x89, 0x8D] \<and>
         take (length (log (chip_run d c0 tr)))
            (log (chip_run d c0 (snd (ReadTime (chip_env d c0) d (SetTime d t tr)))))
           = log (chip_run d c0 tr)"
proof -
  note w = assms(1)
  have t: "fst (ReadTime (chip_env d c0) d (SetTime d t tr)) =
         \<lparr>Year = Year t, Month = Month t, Day = Day t, Hour = Hour t, Minute = Minute t,
          Second = Second t, Nanosecond = 0, Loc = UTC\<rparr>"
    by (simp only: ReadTime_eq fst_conv decoded_after_SetTime[OF assms])
  have g: "regs (chip_run d c0 (snd (ReadTime (chip_env d c0) d (SetTime d t tr)))) DS1302_DAY_WRITE
           = regs (chip_run d c0 tr) DS1302_DAY_WRITE"
    unfolding ReadTime_eq snd_conv chip_ReadTime_decode(2)[OF w] chip_SetTime(1)[OF w]
    by (simp add: reg_defs)
  have l: "log (chip_run d c0 (snd (ReadTime (chip_env d c0) d (SetTime d t tr)))) =
           log (chip_run d c0 tr) @
             [(DS1302_WP_WRITE, 0x00),
              (DS1302_SECONDS_WRITE, decToBcd (word_of_int (Second t))),
              (DS1302_MINUTES_WRITE, decToBcd (word_of_int (Minute t))),
              (DS1302_HOURS_WRITE, decToBcd (word_of_int (Hour t))),
              (DS1302_DATE_WRITE, decToBcd (word_of_int (Day t))),
              (DS1302_MONTH_WRITE, decToBcd (word_of_int (Month t))),
              (DS1302_YEAR_WRITE, decToBcd (word_of_int (Year t - 2000))),
              (DS1302_WP_WRITE, 0x80),
              (DS1302_SECONDS_READ, decToBcd (word_of_int (Second t))),
              (DS1302_MINUTES_READ, decToBcd (word_of_int (Minute t))),
              (DS1302_HOURS_READ, decToBcd (word_of_int (Hour t))),
              (DS1302_DATE_READ, decToBcd (word_of_int (Day t))),
              (DS1302_MONTH_READ, decToBcd (word_of_int (Month t))),
              (DS1302_YEAR_READ, decToBcd (word_of_int (Year t - 2000)))]"
    unfolding ReadTime_eq snd_conv chip_ReadTime_decode(3)[OF w] chip_SetTime(1)[OF w]
      chip_SetTime(2)[OF w]
    by (simp add: reg_defs del: of_int_diff)
  show ?thesis
    unfolding t g l by (simp add: reg_defs del: of_int_diff)
qed

theorem SetTime_ReadTime_round_trip_witness:
  "wired example_rtc \<and> valid_Time initialTime \<and>
   2000 \<le> Year initialTime \<and> Year initialTime \<le> 2099 \<and>
   Second (fst (ReadTime (chip_env example_rtc chip_blank) example_rtc
      (SetTime example_rtc initialTime []))) = 0 \<and>
   Minute (fst (ReadTime (chip_env example_rtc chip_blank) example_rtc
      (SetTime example_rtc initialTime []))) = 0 \<and>
   Hour (fst (ReadTime (chip_env example_rtc chip_blank) example_rtc
      (SetTime example_rtc initialTime []))) = 21 \<and>
   Day (fst (ReadTime (chip_env example_rtc chip_blank) example_rtc
      (SetTime example_rtc initialTime []))) = 5 \<and>
   Month (fst (ReadTime (chip_env example_rtc chip_blank) example_rtc
      (SetTime example_rtc initialTime []))) = 8 \<and>
   Year (fst (ReadTime (chip_env example_rtc chip_blank) example_rtc
      (SetTime example_rtc initialTime []))) = 2024"
proof -
  have y: "2000 \<le> Year initialTime" "Year initialTime \<le> 2099"
    by (simp_all add: initialTime_fields)
  from SetTime_ReadTime_round_trip[OF wired_example valid_initialTime y, of chip_blank "[]"]
  show ?thesis
    using wired_example valid_initialTime y by (simp add: initialTime_fields)
qed

section \<open>Decoding what the chip returns\<close>

lemma chip_run_Nil: "chip_run d c [] = c"
  by (simp add: chip_run_def)

lemma bit7_masked: "(raw OR 0x80) AND 0x7F = raw AND (0x7F :: u8)"
proof -
  have z: "(0x80 :: u8) AND 0x7F = 0" by simp
  have "(raw OR 0x80) AND 0x7F = (raw AND 0x7F) OR (0x80 AND 0x7F)"
    by (rule bit.conj_disj_distrib2)
  then show ?thesis by (simp only: z or.right_neutral)
qed

lemma regs_halted: "regs (chip_run example_rtc chip_halted []) =
   (\<lambda>a. 0)(DS1302_SECONDS_WRITE := 0xD9, DS1302_HOURS_WRITE := 0x21, DS1302_DATE_WRITE := 0x05,
      DS1302_MONTH_WRITE := 0x08, DS1302_YEAR_WRITE := 0x24)"
  by (simp add: chip_run_Nil chip_halted_def chip_blank_def)

lemma decode_halted:
  "fst (ReadTime_decode (chip_env example_rtc chip_halted) example_rtc []) =
     \<lparr>seconds = 59, minutes = 0, hours = 21, day = 5, month = 8, year = 2024\<rparr>"
  unfolding chip_ReadTime_decode(1)[OF wired_example] regs_halted
  by (simp add: reg_defs bcdToDec_def)

lemma ReadTime_halted:
  "fst (ReadTime (chip_env example_rtc chip_halted) example_rtc []) =
     \<lparr>Year = 2024, Month = 8, Day = 5, Hour = 21, Minute = 0, Second = 59,
      Nanosecond = 0, Loc = UTC\<rparr>"
proof -
  have "Date_of \<lparr>seconds = 59, minutes = 0, hours = 21, day = 5, month = 8, year = 2024\<rparr> =
        \<lparr>Year = 2024, Month = 8, Day = 5, Hour = 21, Minute = 0, Second = 59,
         Nanosecond = 0, Loc = UTC\<rparr>"
    by (simp add: Date_of_def Date_in_range daysIn_def)
  then show ?thesis
    by (simp only: ReadTime_eq fst_conv decode_halted)
qed

text \<open>
  C3. For every byte that \<open>readRegister\<close> returns for the seconds read register
  \<open>0x81\<close>, from whatever hardware, the seconds that \<open>ReadTime\<close> decodes and hands to
  \<open>Date\<close> are \<open>bcdToDec\<close> of the byte ANDed with \<open>0x7F\<close>. Bit 7 has no influence: the
  byte with bit 7 set decodes as the byte does. The raw byte \<open>0xD9\<close> decodes to 59, and
  the chip stopped at 21:00:59 reads back as second 59.
\<close>

theorem seconds_clock_halt_masked:
  "seconds (fst (ReadTime_decode ev d tr)) =
     bcdToDec (fst (readRegister ev d 0x81 tr) AND 0x7F) \<and>
   fst (ReadTime ev d tr) = Date_of (fst (ReadTime_decode ev d tr)) \<and>
   Date_of f = Date (year f) (uint (month f)) (uint (day f)) (uint (hours f))
                    (uint (minutes f)) (uint (seconds f)) 0 UTC \<and>
   bcdToDec ((raw OR 0x80) AND 0x7F) = bcdToDec (raw AND 0x7F) \<and>
   bcdToDec (0xD9 AND 0x7F) = 59 \<and>
   regs chip_halted 0x80 = 0xD9 \<and>
   Second (fst (ReadTime (chip_env example_rtc chip_halted) example_rtc [])) = 59"
proof -
  have a: "seconds (fst (ReadTime_decode ev d tr)) =
           bcdToDec (fst (readRegister ev d 0x81 tr) AND 0x7F)"
    by (simp add: ReadTime_decode_def split_beta Let_def reg_defs)
  have b: "bcdToDec (0xD9 AND 0x7F) = 59" by (simp add: bcdToDec_def)
  have c: "Second (fst (ReadTime (chip_env example_rtc chip_halted) example_rtc [])) = 59"
    by (simp only: ReadTime_halted Time.simps)
  have e: "regs chip_halted 0x80 = 0xD9"
    by (simp add: chip_halted_def chip_blank_def reg_defs)
  have f: "fst (ReadTime ev d tr) = Date_of (fst (ReadTime_decode ev d tr))"
    by (simp only: ReadTime_eq fst_conv)
  have g: "bcdToDec ((raw OR 0x80) AND 0x7F) = bcdToDec (raw AND 0x7F)"
    by (simp only: bit7_masked)
  show ?thesis
    by (intro conjI; fact a f Date_of_def g b e c)
qed

section \<open>What ReadTime returns for out-of-range registers\<close>

lemma regs_hour25: "regs (chip_run example_rtc chip_hour25 []) =
   (\<lambda>a. 0)(DS1302_HOURS_WRITE := 0x25, DS1302_DATE_WRITE := 0x05, DS1302_MONTH_WRITE := 0x08,
      DS1302_YEAR_WRITE := 0x24)"
  by (simp add: chip_run_Nil chip_hour25_def chip_blank_def)

lemma decode_hour25:
  "fst (ReadTime_decode (chip_env example_rtc chip_hour25) example_rtc []) =
     \<lparr>seconds = 0, minutes = 0, hours = 25, day = 5, month = 8, year = 2024\<rparr>"
  unfolding chip_ReadTime_decode(1)[OF wired_example] regs_hour25
  by (simp add: reg_defs bcdToDec_def)

lemma Date_hour25:
  "Date 2024 8 5 25 0 0 0 UTC =
     \<lparr>Year = 2024, Month = 8, Day = 6, Hour = 1, Minute = 0, Second = 0,
      Nanosecond = 0, Loc = UTC\<rparr>"
proof -
  have n: "norm 5 25 24 = (6, 1)" by (simp add: norm_def)
  have d: "normDay 2024 8 6 = (2024, 8, 6)"
    by (rule normDay_in_range) (simp_all add: daysIn_def)
  show ?thesis
    by (simp add: Date_def norm_in_range n d)
qed

text \<open>
  Against the claim C6 as it was stated: the chip's registers hold 2024-08-05 and the
  bytes \<open>0x25\<close>, \<open>0x00\<close>, \<open>0x00\<close> for hours, minutes and seconds. The hour decodes to
  25, and the timestamp returned is 2024-08-06 01:00:00: its hour is 1, not 25.
\<close>

theorem ReadTime_hour25_counterexample:
  "regs chip_hour25 DS1302_HOURS_WRITE = 0x25 \<and>
   uint (bcdToDec (regs chip_hour25 DS1302_HOURS_WRITE)) = 25 \<and>
   Hour (fst (ReadTime (chip_env example_rtc chip_hour25) example_rtc [])) = 1 \<and>
   Day (fst (ReadTime (chip_env example_rtc chip_hour25) example_rtc [])) = 6 \<and>
   Hour (fst (ReadTime (chip_env example_rtc chip_hour25) example_rtc []))
     \<noteq> uint (bcdToDec (regs chip_hour25 DS1302_HOURS_WRITE))"
proof -
  have r: "regs chip_hour25 DS1302_HOURS_WRITE = 0x25"
    by (simp add: chip_hour25_def chip_blank_def reg_defs)
  have b: "uint (bcdToDec 0x25) = 25" by (simp add: bcdToDec_def)
  have t: "fst (ReadTime (chip_env example_rtc chip_hour25) example_rtc []) =
     \<lparr>Year = 2024, Month = 8, Day = 6, Hour = 1, Minute = 0, Second = 0,
      Nanosecond = 0, Loc = UTC\<rparr>"
    unfolding ReadTime_eq fst_conv decode_hour25
    by (simp add: Date_of_def Date_hour25)
  show ?thesis
    unfolding t r b by simp
qed


lemma Date_of_in_calendar:
  assumes "in_calendar f"
  shows "Date_of f = \<lparr>Year = year f, Month = uint (month f), Day = uint (day f),
           Hour = uint (hours f), Minute = uint (minutes f), Second = uint (seconds f),
           Nanosecond = 0, Loc = UTC\<rparr>"
  unfolding Date_of_def
  using assms by (intro Date_in_range) (simp_all add: in_calendar_def)

text \<open>
  C6, as the code has it. For every content of the six registers of the simulated chip,
  \<open>ReadTime\<close> decodes the bytes (seconds masked with \<open>0x7F\<close>, year offset by 2000)
  and hands the decoded values, unvalidated, to \<open>Date\<close> in UTC. When the decoded values
  are a calendar date and a time of day, each field of the timestamp returned equals the
  decoded value. Otherwise \<open>Date\<close> normalises them, as for the hour 25 above.
\<close>

theorem ReadTime_decoded_to_Date:
  fixes c0 :: chip and tr :: trace
  assumes "wired d"
  defines "r \<equiv> regs (chip_run d c0 tr)"
  defines "f \<equiv> fst (ReadTime_decode (chip_env d c0) d tr)"
  shows "f = \<lparr>seconds = bcdToDec (r 0x80 AND 0x7F), minutes = bcdToDec (r 0x82),
              hours = bcdToDec (r 0x84), day = bcdToDec (r 0x86), month = bcdToDec (r 0x88),
              year = 2000 + uint (bcdToDec (r 0x8C))\<rparr> \<and>
         fst (ReadTime (chip_env d c0) d tr) =
           Date (year f) (uint (month f)) (uint (day f)) (uint (hours f))
                (uint (minutes f)) (uint (seconds f)) 0 UTC \<and>
         (in_calendar f \<longrightarrow>
            Second (fst (ReadTime (chip_env d c0) d tr)) = uint (seconds f) \<and>
            Minute (fst (ReadTime (chip_env d c0) d tr)) = uint (minutes f) \<and>
            Hour (fst (ReadTime (chip_env d c0) d tr)) = uint (hours f) \<and>
            Day (fst (ReadTime (chip_env d c0) d tr)) = uint (day f) \<and>
            Month (fst (ReadTime (chip_env d c0) d tr)) = uint (month f) \<and>
            Year (fst (ReadTime (chip_env d c0) d tr)) = year f \<and>
            Loc (fst (ReadTime (chip_env d c0) d tr)) = UTC)"
proof -
  have a: "f = \<lparr>seconds = bcdToDec (r 0x80 AND 0x7F), minutes = bcdToDec (r 0x82),
              hours = bcdToDec (r 0x84), day = bcdToDec (r 0x86), month = bcdToDec (r 0x88),
              year = 2000 + uint (bcdToDec (r 0x8C))\<rparr>"
    unfolding f_def r_def chip_ReadTime_decode(1)[OF assms(1)] by (simp only: reg_defs)
  have b: "fst (ReadTime (chip_env d c0) d tr) = Date_of f"
    by (simp only: ReadTime_eq fst_conv f_def)
  have c: "in_calendar f \<longrightarrow>
            Second (fst (ReadTime (chip_env d c0) d tr)) = uint (seconds f) \<and>
            Minute (fst (ReadTime (chip_env d c0) d tr)) = uint (minutes f) \<and>
            Hour (fst (ReadTime (chip_env d c0) d tr)) = uint (hours f) \<and>
            Day (fst (ReadTime (chip_env d c0) d tr)) = uint (day f) \<and>
            Month (fst (ReadTime (chip_env d c0) d tr)) = uint (month f) \<and>
            Year (fst (ReadTime (chip_env d c0) d tr)) = year f \<and>
            Loc (fst (ReadTime (chip_env d c0) d tr)) = UTC"
  proof
    assume "in_calendar f"
    from Date_of_in_calendar[OF this] show "Second (fst (ReadTime (chip_env d c0) d tr)) = uint (seconds f) \<and>
            Minute (fst (ReadTime (chip_env d c0) d tr)) = uint (minutes f) \<and>
            Hour (fst (ReadTime (chip_env d c0) d tr)) = uint (hours f) \<and>
            Day (fst (ReadTime (chip_env d c0) d tr)) = uint (day f) \<and>
            Month (fst (ReadTime (chip_env d c0) d tr)) = uint (month f) \<and>
            Year (fst (ReadTime (chip_env d c0) d tr)) = year f \<and>
            Loc (fst (ReadTime (chip_env d c0) d tr)) = UTC"
      unfolding b by simp
  qed
  have b': "fst (ReadTime (chip_env d c0) d tr) =
           Date (year f) (uint (month f)) (uint (day f)) (uint (hours f))
                (uint (minutes f)) (uint (seconds f)) 0 UTC"
    unfolding b by (rule Date_of_def)
  show ?thesis
    by (intro conjI; fact a b' c)
qed

theorem ReadTime_decoded_to_Date_witness:
  "wired example_rtc \<and>
   in_calendar (fst (ReadTime_decode (chip_env example_rtc chip_halted) example_rtc [])) \<and>
   Second (fst (ReadTime (chip_env example_rtc chip_halted) example_rtc [])) = 59 \<and>
   Minute (fst (ReadTime (chip_env example_rtc chip_halted) example_rtc [])) = 0 \<and>
   Hour (fst (ReadTime (chip_env example_rtc chip_halted) example_rtc [])) = 21 \<and>
   Day (fst (ReadTime (chip_env example_rtc chip_halted) example_rtc [])) = 5 \<and>
   Month (fst (ReadTime (chip_env example_rtc chip_halted) example_rtc [])) = 8 \<and>
   Year (fst (ReadTime (chip_env example_rtc chip_halted) example_rtc [])) = 2024"
proof -
  have c: "in_calendar (fst (ReadTime_decode (chip_env example_rtc chip_halted) example_rtc []))"
    unfolding decode_halted by (simp add: in_calendar_def daysIn_def)
  note fields = ReadTime_decoded_to_Date[OF wired_example, of chip_halted "[]",
      THEN conjunct2, THEN conjunct2, THEN mp, OF c, unfolded decode_halted]
  show ?thesis
    using wired_example c fields by simp
qed

section \<open>The year register\<close>

lemma year_byte_SetTime:
  assumes "wired d"
  shows "regs (chip_run d c0 (SetTime d t tr)) DS1302_YEAR_WRITE =
         decToBcd (word_of_int (Year t - 2000))"
  unfolding chip_SetTime(1)[OF assms] by (simp add: reg_defs del: of_int_diff)

lemma decToBcd_100: "decToBcd 100 = 0xA0"
  by (simp add: decToBcd_def)

lemma regs_year24: "regs (chip_run example_rtc chip_year24 []) =
   (\<lambda>a. 0)(DS1302_YEAR_WRITE := 0x24)"
  by (simp add: chip_run_Nil chip_year24_def chip_blank_def)

lemma decode_year24:
  "fst (ReadTime_decode (chip_env example_rtc chip_year24) example_rtc []) =
     \<lparr>seconds = 0, minutes = 0, hours = 0, day = 0, month = 0, year = 2024\<rparr>"
  unfolding chip_ReadTime_decode(1)[OF wired_example] regs_year24
  by (simp add: reg_defs bcdToDec_def)

lemma Date_month0_day0:
  "Date 2024 0 0 0 0 0 0 UTC =
     \<lparr>Year = 2023, Month = 11, Day = 30, Hour = 0, Minute = 0, Second = 0,
      Nanosecond = 0, Loc = UTC\<rparr>"
proof -
  have n: "norm 2024 (- 1) 12 = (2023, 11)" by (simp add: norm_def)
  have i: "normDay 2023 11 30 = (2023, 11, 30)"
    by (rule normDay_in_range) (simp_all add: daysIn_def)
  have d: "normDay 2023 12 0 = (2023, 11, 30)"
    by (subst normDay.simps) (simp add: daysIn_def i)
  show ?thesis
    by (simp add: Date_def norm_in_range n d)
qed

text \<open>
  Against the claim C5 as it was stated. For the year 2100 the byte written to \<open>0x8C\<close>
  is \<open>decToBcd 100 = 0xA0\<close>, while the year \<open>2000 + (2100 - 2000) mod 100 = 2000\<close>
  writes \<open>0x00\<close>. And on a chip whose year byte is \<open>0x24\<close> and whose other registers
  are zero, the timestamp that \<open>ReadTime\<close> returns has the year 2023, not
  \<open>2000 + bcdToDec 0x24 = 2024\<close>: \<open>Date\<close> takes month 0, day 0 of 2024 to be
  2023-11-30.
\<close>

theorem year_byte_counterexample:
  "regs (chip_run example_rtc chip_blank
      (SetTime example_rtc (initialTime\<lparr>Year := 2100\<rparr>) [])) DS1302_YEAR_WRITE = 0xA0 \<and>
   regs (chip_run example_rtc chip_blank
      (SetTime example_rtc (initialTime\<lparr>Year := 2000 + (2100 - 2000) mod 100\<rparr>) []))
        DS1302_YEAR_WRITE = 0x00 \<and>
   regs (chip_run example_rtc chip_blank
      (SetTime example_rtc (initialTime\<lparr>Year := 2100\<rparr>) [])) DS1302_YEAR_WRITE \<noteq>
   regs (chip_run example_rtc chip_blank
      (SetTime example_rtc (initialTime\<lparr>Year := 2000 + (2100 - 2000) mod 100\<rparr>) []))
        DS1302_YEAR_WRITE \<and>
   regs (chip_run example_rtc chip_year24 []) DS1302_YEAR_WRITE = 0x24 \<and>
   2000 + uint (bcdToDec (regs (chip_run example_rtc chip_year24 []) DS1302_YEAR_WRITE)) = 2024 \<and>
   Year (fst (ReadTime (chip_env example_rtc chip_year24) example_rtc [])) = 2023 \<and>
   Year (fst (ReadTime (chip_env example_rtc chip_year24) example_rtc [])) \<noteq>
     2000 + uint (bcdToDec (regs (chip_run example_rtc chip_year24 []) DS1302_YEAR_WRITE))"
proof -
  have w: "regs (chip_run example_rtc chip_blank
      (SetTime example_rtc (initialTime\<lparr>Year := 2100\<rparr>) [])) DS1302_YEAR_WRITE = 0xA0"
    "regs (chip_run example_rtc chip_blank
      (SetTime example_rtc (initialTime\<lparr>Year := 2000 + (2100 - 2000) mod 100\<rparr>) []))
        DS1302_YEAR_WRITE = 0x00"
    unfolding year_byte_SetTime[OF wired_example]
    by (simp_all add: decToBcd_def)
  have r: "regs (chip_run example_rtc chip_year24 []) DS1302_YEAR_WRITE = 0x24"
    unfolding regs_year24 by simp
  have b: "2000 + uint (bcdToDec (0x24 :: u8)) = 2024" by (simp add: bcdToDec_def)
  have t: "fst (ReadTime (chip_env example_rtc chip_year24) example_rtc []) =
     \<lparr>Year = 2023, Month = 11, Day = 30, Hour = 0, Minute = 0, Second = 0,
      Nanosecond = 0, Loc = UTC\<rparr>"
    unfolding ReadTime_eq fst_conv decode_year24
    by (simp add: Date_of_def Date_month0_day0)
  show ?thesis
    unfolding w r b t by simp
qed

lemma word_of_int_mod_256: "(word_of_int (x mod 256) :: u8) = word_of_int x"
proof -
  have "take_bit 8 (x mod 256) = take_bit 8 x"
    by (simp add: take_bit_eq_mod)
  then show ?thesis
    by (simp add: word_of_int_eq_iff)
qed

lemma uint_decToBcd:
  assumes "0 \<le> x" "x \<le> 99"
  shows "uint (decToBcd (word_of_int x)) = 16 * (x div 10) + x mod 10"
proof -
  have u: "unat (word_of_int x :: u8) = nat x"
    using assms by (simp add: unat_word_of_int_u8)
  then have "unat (decToBcd (word_of_int x)) = 16 * (nat x div 10) + nat x mod 10"
    using assms unat_decToBcd[of "word_of_int x"] by simp
  then have "uint (decToBcd (word_of_int x)) = int (16 * (nat x div 10) + nat x mod 10)"
    by (simp add: uint_nat)
  also have "\<dots> = 16 * (x div 10) + x mod 10"
    using assms by (simp add: zdiv_int zmod_int)
  finally show ?thesis .
qed

lemma Year_ReadTime_in_calendar:
  assumes "wired d" and "in_calendar (fst (ReadTime_decode (chip_env d c0) d tr))"
  shows "Year (fst (ReadTime (chip_env d c0) d tr)) =
         2000 + uint (bcdToDec (regs (chip_run d c0 tr) DS1302_YEAR_WRITE))"
proof -
  have "Year (fst (ReadTime (chip_env d c0) d tr)) =
        year (fst (ReadTime_decode (chip_env d c0) d tr))"
    unfolding ReadTime_eq fst_conv Date_of_in_calendar[OF assms(2)] by simp
  also have "\<dots> = 2000 + uint (bcdToDec (regs (chip_run d c0 tr) DS1302_YEAR_WRITE))"
    unfolding chip_ReadTime_decode(1)[OF assms(1)] by simp
  finally show ?thesis .
qed

lemma Year_ReadTime_after_SetTime:
  assumes "wired d" and "valid_Time t" and "2000 \<le> Year t" and "Year t \<le> 2099"
  shows "Year (fst (ReadTime (chip_env d c0) d (SetTime d t tr))) = Year t"
  unfolding ReadTime_eq fst_conv decoded_after_SetTime[OF assms] by simp

lemma decode_initialTime:
  "fst (ReadTime_decode (chip_env example_rtc chip_blank) example_rtc
      (SetTime example_rtc initialTime [])) =
     \<lparr>seconds = 0, minutes = 0, hours = 21, day = 5, month = 8, year = 2024\<rparr>"
  unfolding chip_ReadTime_decode(1)[OF wired_example] chip_SetTime(1)[OF wired_example]
  by (simp add: initialTime_fields reg_defs bcdToDec_def decToBcd_def)

text \<open>
  C5, as the code has it. \<open>SetTime\<close> writes to register \<open>0x8C\<close> the byte
  \<open>decToBcd (uint8 (Year - 2000))\<close>: for the years 2000 to 2099 the BCD digits of
  \<open>Year - 2000\<close> (so \<open>0x24\<close> for 2024), and \<open>ReadTime\<close> after \<open>SetTime\<close> then
  returns a timestamp of the same year; for any other year the offset is first cut to
  eight bits, so that the byte is the one written for \<open>2000 + (Year - 2000) mod 256\<close>.
  \<open>ReadTime\<close> decodes the year as 2000 plus \<open>bcdToDec\<close> of the raw year byte, 2024 for
  \<open>0x24\<close>, and hands it to \<open>Date\<close>; whenever the decoded values are a calendar date
  and a time of day, that is the year of the timestamp returned.
\<close>

theorem SetTime_year_byte:
  assumes "wired d"
  shows "regs (chip_run d c0 (SetTime d t tr)) 0x8C = decToBcd (word_of_int (Year t - 2000)) \<and>
         (2000 \<le> Year t \<and> Year t \<le> 2099 \<longrightarrow>
            uint (decToBcd (word_of_int (Year t - 2000))) =
              16 * ((Year t - 2000) div 10) + (Year t - 2000) mod 10) \<and>
         (Year t = 2024 \<longrightarrow> regs (chip_run d c0 (SetTime d t tr)) 0x8C = 0x24) \<and>
         decToBcd (word_of_int (Year t - 2000)) =
           decToBcd (word_of_int ((2000 + (Year t - 2000) mod 256) - 2000)) \<and>
         year (fst (ReadTime_decode (chip_env d c0) d tr)) =
           2000 + uint (bcdToDec (regs (chip_run d c0 tr) 0x8C)) \<and>
         (regs (chip_run d c0 tr) 0x8C = 0x24 \<longrightarrow>
            year (fst (ReadTime_decode (chip_env d c0) d tr)) = 2024) \<and>
         fst (ReadTime (chip_env d c0) d tr) =
           Date_of (fst (ReadTime_decode (chip_env d c0) d tr)) \<and>
         (in_calendar (fst (ReadTime_decode (chip_env d c0) d tr)) \<longrightarrow>
            Year (fst (ReadTime (chip_env d c0) d tr)) =
              2000 + uint (bcdToDec (regs (chip_run d c0 tr) 0x8C))) \<and>
         (in_calendar (fst (ReadTime_decode (chip_env d c0) d tr)) \<and>
          regs (chip_run d c0 tr) 0x8C = 0x24 \<longrightarrow>
            Year (fst (ReadTime (chip_env d c0) d tr)) = 2024) \<and>
         (valid_Time t \<and> 2000 \<le> Year t \<and> Year t \<le> 2099 \<longrightarrow>
            Year (fst (ReadTime (chip_env d c0) d (SetTime d t tr))) = Year t)"
proof -
  have a: "regs (chip_run d c0 (SetTime d t tr)) 0x8C = decToBcd (word_of_int (Year t - 2000))"
    using year_byte_SetTime[OF assms, of c0 t tr] by (simp only: reg_defs)
  have b: "2000 \<le> Year t \<and> Year t \<le> 2099 \<longrightarrow>
            uint (decToBcd (word_of_int (Year t - 2000))) =
              16 * ((Year t - 2000) div 10) + (Year t - 2000) mod 10"
    using uint_decToBcd[of "Year t - 2000"] by (simp del: of_int_diff)
  have c: "Year t = 2024 \<longrightarrow> regs (chip_run d c0 (SetTime d t tr)) 0x8C = 0x24"
    unfolding a by (simp add: decToBcd_def)
  have "2000 + (Year t - 2000) mod 256 - 2000 = (Year t - 2000) mod 256" by simp
  then have e: "decToBcd (word_of_int (Year t - 2000)) =
           decToBcd (word_of_int ((2000 + (Year t - 2000) mod 256) - 2000))"
    by (simp only: word_of_int_mod_256)
  have f: "year (fst (ReadTime_decode (chip_env d c0) d tr)) =
           2000 + uint (bcdToDec (regs (chip_run d c0 tr) 0x8C))"
    unfolding chip_ReadTime_decode(1)[OF assms] by (simp add: reg_defs)
  have g: "regs (chip_run d c0 tr) 0x8C = 0x24 \<longrightarrow>
            year (fst (ReadTime_decode (chip_env d c0) d tr)) = 2024"
    unfolding f by (simp add: bcdToDec_def)
  have h: "fst (ReadTime (chip_env d c0) d tr) =
           Date_of (fst (ReadTime_decode (chip_env d c0) d tr))"
    by (simp only: ReadTime_eq fst_conv)
  have i: "in_calendar (fst (ReadTime_decode (chip_env d c0) d tr)) \<longrightarrow>
            Year (fst (ReadTime (chip_env d c0) d tr)) =
              2000 + uint (bcdToDec (regs (chip_run d c0 tr) 0x8C))"
    using Year_ReadTime_in_calendar[OF assms, of c0 tr] by (simp add: reg_defs)
  have j: "in_calendar (fst (ReadTime_decode (chip_env d c0) d tr)) \<and>
          regs (chip_run d c0 tr) 0x8C = 0x24 \<longrightarrow>
            Year (fst (ReadTime (chip_env d c0) d tr)) = 2024"
  proof
    assume p: "in_calendar (fst (ReadTime_decode (chip_env d c0) d tr)) \<and>
          regs (chip_run d c0 tr) 0x8C = 0x24"
    then have "Year (fst (ReadTime (chip_env d c0) d tr)) =
              2000 + uint (bcdToDec (0x24 :: u8))"
      using i by simp
    then show "Year (fst (ReadTime (chip_env d c0) d tr)) = 2024"
      by (simp add: bcdToDec_def)
  qed
  have k: "valid_Time t \<and> 2000 \<le> Year t \<and> Year t \<le> 2099 \<longrightarrow>
            Year (fst (ReadTime (chip_env d c0) d (SetTime d t tr))) = Year t"
    using Year_ReadTime_after_SetTime[OF assms, of t c0 tr] by blast
  show ?thesis
    by (intro conjI; fact a b c e f g h i j k)
qed

theorem SetTime_year_byte_witness:
  "wired example_rtc \<and> valid_Time initialTime \<and>
   2000 \<le> Year initialTime \<and> Year initialTime \<le> 2099 \<and> Year initialTime = 2024 \<and>
   uint (decToBcd (word_of_int (Year initialTime - 2000))) = 36 \<and>
   regs (chip_run example_rtc chip_blank []) 0x8C = 0x00 \<and>
   regs (chip_run example_rtc chip_blank (SetTime example_rtc initialTime [])) 0x8C = 0x24 \<and>
   in_calendar (fst (ReadTime_decode (chip_env example_rtc chip_blank) example_rtc
      (SetTime example_rtc initialTime []))) \<and>
   year (fst (ReadTime_decode (chip_env example_rtc chip_blank) example_rtc
      (SetTime example_rtc initialTime []))) = 2024 \<and>
   Year (fst (ReadTime (chip_env example_rtc chip_blank) example_rtc
      (SetTime example_rtc initialTime []))) = 2024"
proof -
  let ?tr1 = "SetTime example_rtc initialTime []"
  have y: "Year initialTime = 2024" by (simp add: initialTime_fields)
  have yr: "2000 \<le> Year initialTime \<and> Year initialTime \<le> 2099" by (simp add: y)
  have z: "regs (chip_run example_rtc chip_blank []) 0x8C = 0x00"
    by (simp add: chip_run_Nil chip_blank_def)
  note th0 = SetTime_year_byte[OF wired_example, of chip_blank initialTime "[]"]
  note th1 = SetTime_year_byte[OF wired_example, of chip_blank initialTime ?tr1]
  note w1 = th0[THEN conjunct2, THEN conjunct2, THEN conjunct1, THEN mp, OF y]
  note w3 = th0[THEN conjunct2, THEN conjunct1, THEN mp, OF yr]
  have v: "uint (decToBcd (word_of_int (Year initialTime - 2000))) = 36"
    unfolding w3 by (simp add: y)
  have ic: "in_calendar (fst (ReadTime_decode (chip_env example_rtc chip_blank) example_rtc ?tr1))"
    unfolding decode_initialTime by (simp add: in_calendar_def daysIn_def)
  note w2 = th1[THEN conjunct2, THEN conjunct2, THEN conjunct2, THEN conjunct2,
      THEN conjunct2, THEN conjunct1, THEN mp, OF w1]
  have both: "in_calendar (fst (ReadTime_decode (chip_env example_rtc chip_blank) example_rtc ?tr1))
      \<and> regs (chip_run example_rtc chip_blank ?tr1) 0x8C = 0x24"
    using ic w1 by (rule conjI)
  note w4 = th1[THEN conjunct2, THEN conjunct2, THEN conjunct2, THEN conjunct2,
      THEN conjunct2, THEN conjunct2, THEN conjunct2, THEN conjunct2, THEN conjunct1,
      THEN mp, OF both]
  show ?thesis
    by (intro conjI; fact wired_example valid_initialTime yr[THEN conjunct1]
          yr[THEN conjunct2] y v z w1 ic w2 w4)
qed

end
